theory Spec2Isabelle
  imports Complex_Main "HOL-Library.Char_ord" "HOL-Library.List_Lexorder"
begin

section \<open>A shallow embedding of the DICOM plugin (imageio/plugins/dicom.py)\<close>

text \<open>
  The theory follows the source file top to bottom: the byte source, the element
  decoder of \<open>SimpleDicomReader\<close>, the header and body scans, the derivation of shape and
  sampling, the rescale promotion, the series builder (\<open>DicomSeries\<close>,
  \<open>splitSerieIfRequired\<close>, the finishing loop of \<open>process_directory\<close>) and the host
  interface (\<open>DicomFormat.Reader\<close>).

  Conventions of the embedding:
  \<^item> a Python byte string is a list of \<open>char\<close> (an Isabelle \<open>char\<close> is one 8-bit byte), so
    \<open>b'DICM'\<close> is \<open>''DICM''\<close>; the numeric value of a byte is \<open>of_char\<close>;
  \<^item> Python integers are \<open>int\<close> (or \<open>nat\<close> where the source unpacks an unsigned field);
  \<^item> Python floats are idealised as exact rationals (\<open>rat\<close>): rounding is not modelled;
  \<^item> every exception is a value of type \<open>error\<close>, and a function that can raise returns
    \<open>error + 'a\<close> with \<open>Inl\<close> the exception;
  \<^item> the built-ins the source calls but does not define (\<open>float\<close> and \<open>int\<close> on strings,
    UTF-8 decoding, \<open>str.rstrip\<close>, \<open>repr\<close>, \<open>zlib.decompress\<close>) are parameters, collected in the record
    \<open>builtins\<close>.
\<close>

subsection \<open>Values, exceptions, built-ins\<close>

type_synonym byte = char

datatype val =
    VInt int
  | VFloat rat
  | VStr string
  | VBytes "byte list"
  | VTuple "val list"
  | VNone

type_synonym info = "string \<rightharpoonup> val"

datatype error =
    NotADicomFile
  | EOFError
  | StructError
  | RuntimeError_EndOfHeader
  | RuntimeError_TransferSyntax
  | TypeError_NoPixelData
  | NotImplementedError
  | ValueError_Dimensions
  | ValueError_NoFiles
  | ValueError_Expect
  | IndexError_OneSlice
  | AttributeError string
  | KeyError string
  | IndexError
  | TypeError
  | ValueError
  | UnicodeDecodeError
  | ZlibError

record builtins =
  float_of_str :: "string \<Rightarrow> rat option"
  int_of_str :: "string \<Rightarrow> int option"
  decode_utf8 :: "byte list \<Rightarrow> string option"
  py_rstrip :: "string \<Rightarrow> string"
  py_repr :: "string \<Rightarrow> string"
  zlib_decompress :: "byte list \<Rightarrow> byte list option"

definition bindE :: "error + 'a \<Rightarrow> ('a \<Rightarrow> error + 'b) \<Rightarrow> error + 'b" where
  "bindE m f = (case m of Inl e \<Rightarrow> Inl e | Inr x \<Rightarrow> f x)"

subsection \<open>The byte source\<close>

text \<open>
  A file object: its bytes and the cursor. \<open>read(n)\<close> returns at most \<open>n\<close> bytes and
  never fails (a short or empty result at the end of the data); \<open>seek\<close> may place the
  cursor beyond the end.
\<close>

record fileobj =
  content :: "byte list"
  pos :: nat

definition BytesIO :: "byte list \<Rightarrow> fileobj" where
  "BytesIO bs = \<lparr>content = bs, pos = 0\<rparr>"

definition fread :: "fileobj \<Rightarrow> nat \<Rightarrow> byte list \<times> fileobj" where
  "fread f n =
     (let bs = take n (drop (pos f) (content f))
      in (bs, f\<lparr>pos := pos f + length bs\<rparr>))"

definition fread_all :: "fileobj \<Rightarrow> byte list \<times> fileobj" where
  "fread_all f =
     (let bs = drop (pos f) (content f)
      in (bs, f\<lparr>pos := pos f + length bs\<rparr>))"

definition fseek :: "fileobj \<Rightarrow> nat \<Rightarrow> fileobj" where
  "fseek f p = f\<lparr>pos := p\<rparr>"

definition ftell :: "fileobj \<Rightarrow> nat" where
  "ftell f = pos f"


subsection \<open>struct.unpack\<close>

text \<open>
  \<open>struct.unpack(prefix + 'H', value)[0]\<close> and the same for \<open>'I'\<close> and \<open>'L'\<close> (4 bytes in
  standard size): the prefix is \<open>'<'\<close> (little endian) or \<open>'>'\<close> (big endian); a value of
  the wrong length raises \<open>struct.error\<close>.
\<close>

definition byte_val :: "byte \<Rightarrow> nat" where
  "byte_val c = of_char c"

fun be_val :: "byte list \<Rightarrow> nat" where
  "be_val bs = foldl (\<lambda>acc b. 256 * acc + byte_val b) 0 bs"

definition unpack_n :: "nat \<Rightarrow> char \<Rightarrow> byte list \<Rightarrow> error + nat" where
  "unpack_n n prefix v =
     (if length v \<noteq> n then Inl StructError
      else if prefix = CHR ''<'' then Inr (be_val (rev v))
      else Inr (be_val v))"

definition unpack_H :: "char \<Rightarrow> byte list \<Rightarrow> error + nat" where
  "unpack_H = unpack_n 2"

definition unpack_I :: "char \<Rightarrow> byte list \<Rightarrow> error + nat" where
  "unpack_I = unpack_n 4"

subsection \<open>The reader object\<close>

record reader =
  filename :: string
  rfile :: fileobj
  pixel_data_loc :: "(nat \<times> nat) option"
  is_implicit_VR :: bool
  is_little_endian :: bool
  unpackPrefix :: char
  rinfo :: info
  on_disk :: "byte list option"
  file_closed :: bool

text \<open>
  \<open>SimpleDicomReader.__init__\<close> before \<open>self._read()\<close>. The argument is a file name or a
  file object. For a name, \<open>on_disk\<close> holds the bytes of the file of that name (what
  \<open>open(file, 'rb')\<close> reads, and what \<open>os.path.isfile\<close> finds later); for a file object
  the name is \<open>'<unknown file>'\<close> and \<open>on_disk\<close> is \<open>None\<close>.
\<close>

definition init_reader :: "string \<Rightarrow> fileobj \<Rightarrow> byte list option \<Rightarrow> reader" where
  "init_reader name f disk =
     \<lparr>filename = name, rfile = f, pixel_data_loc = None,
      is_implicit_VR = False, is_little_endian = True,
      unpackPrefix = CHR ''<'', rinfo = Map.empty, on_disk = disk, file_closed = False\<rparr>"

definition reader_of_name :: "string \<Rightarrow> byte list \<Rightarrow> reader" where
  "reader_of_name name bs = init_reader name (BytesIO bs) (Some bs)"

definition reader_of_file :: "fileobj \<Rightarrow> reader" where
  "reader_of_file f = init_reader ''<unknown file>'' f None"

subsection \<open>The transfer-syntax switch of \<open>_read_header\<close>, and \<open>_inflate\<close>\<close>

text \<open>
  \<open>_inflate\<close>: read the rest of the file, decompress it (raw DEFLATE,
  \<open>zlib.decompress(zipped, -zlib.MAX_WBITS)\<close>, a parameter here) and replace the file by
  an in-memory one over the result.
\<close>

definition inflate :: "builtins \<Rightarrow> reader \<Rightarrow> error + reader" where
  "inflate B r =
     (let zipped = fst (fread_all (rfile r))
      in case zlib_decompress B zipped of
           None \<Rightarrow> Inl ZlibError
         | Some unzipped \<Rightarrow> Inr (r\<lparr>rfile := BytesIO unzipped\<rparr>))"

definition set_mode :: "bool \<Rightarrow> bool \<Rightarrow> reader \<Rightarrow> reader" where
  "set_mode implicit little r =
     r\<lparr>is_implicit_VR := implicit, is_little_endian := little,
       unpackPrefix := (if little then CHR ''<'' else CHR ''>'')\<rparr>"

text \<open>
  Lines 491 to 514: the UID found in the meta header (\<open>None\<close> when there was none) is
  stored in the info dict, and selects the mode of the body.
\<close>

definition handle_transfer_syntax :: "builtins \<Rightarrow> reader \<Rightarrow> string option \<Rightarrow> error + reader" where
  "handle_transfer_syntax B r0 uid =
     (let r = r0\<lparr>rinfo := (rinfo r0)(''TransferSyntaxUID'' \<mapsto>
                  (case uid of None \<Rightarrow> VNone | Some u \<Rightarrow> VStr u))\<rparr>
      in if uid = None then Inr (set_mode False True r)
         else if uid = Some ''1.2.840.10008.1.2.1'' then Inr (set_mode False True r)
         else if uid = Some ''1.2.840.10008.1.2.2'' then Inr (set_mode False False r)
         else if uid = Some ''1.2.840.10008.1.2'' then Inr (set_mode True True r)
         else if uid = Some ''1.2.840.10008.1.2.1.99'' then
           bindE (inflate B r) (\<lambda>r'. Inr (set_mode False True r'))
         else if uid = Some ''1.2.840.10008.1.2.4.70'' then Inr (set_mode False True r)
         else Inl RuntimeError_TransferSyntax)"

subsection \<open>The undefined-length scan\<close>

definition SequenceDelimiterTag :: "nat \<times> nat" where
  "SequenceDelimiterTag = (0xFFFE, 0xE0DD)"

text \<open>\<open>struct.pack(prefix + 'H', n)\<close> for \<open>n < 65536\<close>.\<close>

definition pack_H :: "char \<Rightarrow> nat \<Rightarrow> byte list" where
  "pack_H prefix n =
     (if prefix = CHR ''<'' then [char_of (n mod 256), char_of (n div 256)]
      else [char_of (n div 256), char_of (n mod 256)])"

definition bytes_to_find :: "char \<Rightarrow> byte list" where
  "bytes_to_find prefix =
     pack_H prefix (fst SequenceDelimiterTag) @ pack_H prefix (snd SequenceDelimiterTag)"

text \<open>\<open>haystack.find(needle)\<close>: the least index where the needle starts, if any.\<close>

fun find_bytes :: "byte list \<Rightarrow> byte list \<Rightarrow> nat option" where
  "find_bytes [] needle = (if needle = [] then Some 0 else None)"
| "find_bytes (x # xs) needle =
     (if take (length needle) (x # xs) = needle then Some 0
      else map_option Suc (find_bytes xs needle))"

definition read_size :: nat where
  "read_size = 128"

definition search_rewind :: nat where
  "search_rewind = 3"

text \<open>
  One window: \<open>fp.read(read_size)\<close> and, when that came back short, one more read for the
  missing bytes.
\<close>

definition read_window :: "fileobj \<Rightarrow> byte list \<times> fileobj" where
  "read_window fp =
     (let bytes_read = fst (fread fp read_size); fp1 = snd (fread fp read_size)
      in if length bytes_read < read_size then
           (let new_bytes = fst (fread fp1 (read_size - length bytes_read));
                fp2 = snd (fread fp1 (read_size - length bytes_read))
            in (bytes_read @ new_bytes, fp2))
         else (bytes_read, fp1))"

lemma fread_simps:
  "fst (fread f n) = take n (drop (pos f) (content f))"
  "pos (snd (fread f n)) = pos f + min n (length (content f) - pos f)"
  "content (snd (fread f n)) = content f"
  by (simp_all add: fread_def Let_def)

lemma read_window_length:
  "length (fst (read_window fp)) = min read_size (length (content fp) - pos fp)"
  by (simp add: read_window_def Let_def fread_simps)

lemma read_window_content: "content (snd (read_window fp)) = content fp"
  by (simp add: read_window_def Let_def fread_simps)

lemma read_window_full:
  assumes "\<not> length (fst (read_window fp)) < read_size"
  shows "pos fp + read_size \<le> length (content fp)"
    and "pos (snd (read_window fp)) = pos fp + read_size"
proof -
  from assms show le: "pos fp + read_size \<le> length (content fp)"
    by (simp add: read_window_length read_size_def)
  then show "pos (snd (read_window fp)) = pos fp + read_size"
    by (simp add: read_window_def Let_def fread_simps)
qed

text \<open>
  The loop of \<open>_read_undefined_length_value\<close>. A window that is still short after the
  second read raises \<open>EOFError\<close> before it is searched. The warning printed to standard
  output when the four bytes after the delimiter are not zero is not part of the model.
\<close>

function scan_loop :: "byte list \<Rightarrow> fileobj \<Rightarrow> byte list list \<Rightarrow> error + (byte list \<times> fileobj)" where
  "scan_loop needle fp value_chunks =
     (if length (fst (read_window fp)) < read_size then Inl EOFError
      else case find_bytes (fst (read_window fp)) needle of
             Some index \<Rightarrow>
               Inr (concat (value_chunks @ [take index (fst (read_window fp))]),
                    snd (fread (fseek (snd (read_window fp)) (ftell fp + index + 4)) 4))
           | None \<Rightarrow>
               scan_loop needle
                 (fseek (snd (read_window fp)) (ftell (snd (read_window fp)) - search_rewind))
                 (value_chunks @
                    [take (length (fst (read_window fp)) - search_rewind) (fst (read_window fp))]))"
  by pat_completeness auto
termination
proof (relation "measure (\<lambda>(needle, fp, chunks). length (content fp) - pos fp)")
  show "wf (measure (\<lambda>(needle, fp, chunks). length (content fp) - pos fp))"
    by simp
next
  fix needle :: "byte list" and fp :: fileobj and value_chunks :: "byte list list"
  assume full: "\<not> length (fst (read_window fp)) < read_size"
  let ?fp' = "fseek (snd (read_window fp)) (ftell (snd (read_window fp)) - search_rewind)"
  have le: "pos fp + 128 \<le> length (content fp)"
    using read_window_full(1) [OF full] by (simp add: read_size_def)
  have p: "pos ?fp' = pos fp + 125"
    using read_window_full(2) [OF full]
    by (simp add: fseek_def ftell_def read_size_def search_rewind_def)
  have c: "content ?fp' = content fp"
    by (simp add: fseek_def read_window_content)
  have "length (content ?fp') - pos ?fp' < length (content fp) - pos fp"
    unfolding p c using le by arith
  then show "((needle, ?fp',
          value_chunks @
            [take (length (fst (read_window fp)) - search_rewind) (fst (read_window fp))]),
         (needle, fp, value_chunks))
        \<in> measure (\<lambda>(needle, fp, chunks). length (content fp) - pos fp)"
    by simp
qed

declare scan_loop.simps [simp del]

definition read_undefined_length_value :: "char \<Rightarrow> fileobj \<Rightarrow> error + (byte list \<times> fileobj)" where
  "read_undefined_length_value prefix fp = scan_loop (bytes_to_find prefix) fp []"

subsection \<open>The element decoder: \<open>_readDataElement\<close>\<close>

definition read_H :: "char \<Rightarrow> fileobj \<Rightarrow> error + (nat \<times> fileobj)" where
  "read_H prefix f =
     (case unpack_H prefix (fst (fread f 2)) of
        Inl e \<Rightarrow> Inl e
      | Inr n \<Rightarrow> Inr (n, snd (fread f 2)))"

definition read_I :: "char \<Rightarrow> fileobj \<Rightarrow> error + (nat \<times> fileobj)" where
  "read_I prefix f =
     (case unpack_I prefix (fst (fread f 4)) of
        Inl e \<Rightarrow> Inl e
      | Inr n \<Rightarrow> Inr (n, snd (fread f 4)))"

text \<open>
  The value length: 32 bits in implicit VR; in explicit VR two bytes of VR, then for
  the VRs \<open>OB\<close>, \<open>OW\<close>, \<open>SQ\<close>, \<open>UN\<close> two reserved bytes and 32 bits, else 16 bits.
\<close>

definition read_value_length :: "reader \<Rightarrow> fileobj \<Rightarrow> error + (nat \<times> fileobj)" where
  "read_value_length r f =
     (if is_implicit_VR r then read_I (unpackPrefix r) f
      else
        (let vr = fst (fread f 2); f1 = snd (fread f 2)
         in if vr \<in> {''OB'', ''OW'', ''SQ'', ''UN''} then
              read_I (unpackPrefix r) (snd (fread f1 2))
            else read_H (unpackPrefix r) f1))"

definition read_value :: "reader \<Rightarrow> nat \<Rightarrow> nat \<Rightarrow> nat \<Rightarrow> fileobj \<Rightarrow>
    error + (nat \<times> nat \<times> byte list \<times> reader)" where
  "read_value r grp element vl f =
     (if grp = 0x7FE0 \<and> element = 0x0010 then
        (let here = ftell f
         in Inr (grp, element, ''Deferred loading of pixel data'',
                 r\<lparr>pixel_data_loc := Some (here, vl), rfile := fseek f (here + vl)\<rparr>))
      else if vl = 0xFFFFFFFF then
        (case read_undefined_length_value (unpackPrefix r) f of
           Inl e \<Rightarrow> Inl e
         | Inr (v, f') \<Rightarrow> Inr (grp, element, v, r\<lparr>rfile := f'\<rparr>))
      else Inr (grp, element, fst (fread f vl), r\<lparr>rfile := snd (fread f vl)\<rparr>))"

text \<open>
  The result is the triple of the source and the reader after the read. When a read
  raises, the cursor it leaves behind is not kept: every later use of the file seeks to
  an absolute offset first.
\<close>

definition readDataElement :: "reader \<Rightarrow> error + (nat \<times> nat \<times> byte list \<times> reader)" where
  "readDataElement r =
     (case read_H (unpackPrefix r) (rfile r) of
        Inl e \<Rightarrow> Inl e
      | Inr (grp, f1) \<Rightarrow>
          (case read_H (unpackPrefix r) f1 of
             Inl e \<Rightarrow> Inl e
           | Inr (element, f2) \<Rightarrow>
               (case read_value_length r f2 of
                  Inl e \<Rightarrow> Inl e
                | Inr (vl, f3) \<Rightarrow> read_value r grp element vl f3)))"

text \<open>Every successful read moves the cursor forward, inside the same bytes.\<close>

lemma unpack_n_length: "unpack_n n prefix v = Inr x \<Longrightarrow> length v = n"
  by (simp add: unpack_n_def split: if_splits)

lemma read_H_advances:
  assumes "read_H prefix f = Inr (n, f')"
  shows "content f' = content f" and "pos f' = pos f + 2" and "pos f + 2 \<le> length (content f)"
proof -
  from assms obtain x where u: "unpack_H prefix (fst (fread f 2)) = Inr x" and f': "f' = snd (fread f 2)"
    by (auto simp: read_H_def split: sum.splits)
  from u have len: "length (fst (fread f 2)) = 2"
    unfolding unpack_H_def by (rule unpack_n_length)
  then show le: "pos f + 2 \<le> length (content f)"
    by (simp add: fread_simps)
  show "content f' = content f" by (simp add: f' fread_simps)
  from le show "pos f' = pos f + 2" by (simp add: f' fread_simps)
qed

lemma read_I_advances:
  assumes "read_I prefix f = Inr (n, f')"
  shows "content f' = content f" and "pos f' = pos f + 4" and "pos f + 4 \<le> length (content f)"
proof -
  from assms obtain x where u: "unpack_I prefix (fst (fread f 4)) = Inr x" and f': "f' = snd (fread f 4)"
    by (auto simp: read_I_def split: sum.splits)
  from u have len: "length (fst (fread f 4)) = 4"
    unfolding unpack_I_def by (rule unpack_n_length)
  then show le: "pos f + 4 \<le> length (content f)"
    by (simp add: fread_simps)
  show "content f' = content f" by (simp add: f' fread_simps)
  from le show "pos f' = pos f + 4" by (simp add: f' fread_simps)
qed

lemma read_value_length_advances:
  assumes "read_value_length r f = Inr (vl, f')"
  shows "content f' = content f" and "pos f \<le> pos f'"
proof -
  have "content f' = content f \<and> pos f \<le> pos f'"
  proof (cases "is_implicit_VR r")
    case True
    with assms have "read_I (unpackPrefix r) f = Inr (vl, f')"
      by (simp add: read_value_length_def)
    from read_I_advances [OF this] show ?thesis by simp
  next
    case False
    show ?thesis
    proof (cases "fst (fread f 2) \<in> {''OB'', ''OW'', ''SQ'', ''UN''}")
      case True
      with False assms have "read_I (unpackPrefix r) (snd (fread (snd (fread f 2)) 2)) = Inr (vl, f')"
        by (simp add: read_value_length_def Let_def)
      from read_I_advances [OF this] show ?thesis by (simp add: fread_simps)
    next
      case notlong: False
      with False assms have "read_H (unpackPrefix r) (snd (fread f 2)) = Inr (vl, f')"
        by (simp add: read_value_length_def Let_def)
      from read_H_advances [OF this] show ?thesis by (simp add: fread_simps)
    qed
  qed
  then show "content f' = content f" and "pos f \<le> pos f'" by simp_all
qed

lemma scan_loop_advances:
  "scan_loop needle fp chunks = Inr (v, fp') \<Longrightarrow> content fp' = content fp \<and> pos fp \<le> pos fp'"
proof (induction needle fp chunks rule: scan_loop.induct)
  case (1 needle fp value_chunks)
  show ?case
  proof (cases "length (fst (read_window fp)) < read_size")
    case True
    with "1.prems" show ?thesis by (simp add: scan_loop.simps [of needle fp value_chunks])
  next
    case full: False
    show ?thesis
    proof (cases "find_bytes (fst (read_window fp)) needle")
      case (Some index)
      with full "1.prems"
      have "fp' = snd (fread (fseek (snd (read_window fp)) (ftell fp + index + 4)) 4)"
        by (simp add: scan_loop.simps [of needle fp value_chunks])
      then show ?thesis
        by (simp add: fread_simps fseek_def ftell_def read_window_content)
    next
      case None
      let ?fp1 = "fseek (snd (read_window fp)) (ftell (snd (read_window fp)) - search_rewind)"
      from None full "1.prems"
      have "scan_loop needle ?fp1
              (value_chunks @
                 [take (length (fst (read_window fp)) - search_rewind) (fst (read_window fp))])
            = Inr (v, fp')"
        by (simp add: scan_loop.simps [of needle fp value_chunks])
      from "1.IH" [OF full None this]
      have "content fp' = content ?fp1" and "pos ?fp1 \<le> pos fp'" by simp_all
      moreover have "content ?fp1 = content fp"
        by (simp add: fseek_def read_window_content)
      moreover have "pos fp \<le> pos ?fp1"
        using read_window_full(2) [OF full]
        by (simp add: fseek_def ftell_def read_size_def search_rewind_def)
      ultimately show ?thesis by simp
    qed
  qed
qed

lemma read_value_advances:
  assumes "read_value r grp element vl f = Inr (g, e, v, r')"
  shows "content (rfile r') = content f" and "pos f \<le> pos (rfile r')"
proof -
  have "content (rfile r') = content f \<and> pos f \<le> pos (rfile r')"
  proof (cases "grp = 0x7FE0 \<and> element = 0x0010")
    case True
    with assms show ?thesis
      by (auto simp: read_value_def Let_def fseek_def ftell_def)
  next
    case notpixel: False
    show ?thesis
    proof (cases "vl = 0xFFFFFFFF")
      case True
      with notpixel assms obtain f' where
        s: "read_undefined_length_value (unpackPrefix r) f = Inr (v, f')" and r': "r' = r\<lparr>rfile := f'\<rparr>"
        by (auto simp: read_value_def split: sum.splits)
      from s have "content f' = content f \<and> pos f \<le> pos f'"
        unfolding read_undefined_length_value_def by (rule scan_loop_advances)
      with r' show ?thesis by simp
    next
      case False
      with notpixel assms have "r' = r\<lparr>rfile := snd (fread f vl)\<rparr>"
        by (auto simp: read_value_def)
      then show ?thesis by (simp add: fread_simps)
    qed
  qed
  then show "content (rfile r') = content f" and "pos f \<le> pos (rfile r')" by simp_all
qed

lemma readDataElement_advances:
  assumes "readDataElement r = Inr (g, e, v, r')"
  shows "content (rfile r') = content (rfile r)"
    and "pos (rfile r) + 4 \<le> pos (rfile r')"
    and "pos (rfile r) + 4 \<le> length (content (rfile r))"
proof -
  from assms obtain grp f1 element f2 vl f3 where
    h1: "read_H (unpackPrefix r) (rfile r) = Inr (grp, f1)" and
    h2: "read_H (unpackPrefix r) f1 = Inr (element, f2)" and
    h3: "read_value_length r f2 = Inr (vl, f3)" and
    h4: "read_value r grp element vl f3 = Inr (g, e, v, r')"
    by (auto simp: readDataElement_def split: sum.splits)
  note a1 = read_H_advances [OF h1] and a2 = read_H_advances [OF h2]
    and a3 = read_value_length_advances [OF h3] and a4 = read_value_advances [OF h4]
  from a1 a2 a3 a4 show "content (rfile r') = content (rfile r)" by simp
  from a1 a2 a3 a4 show "pos (rfile r) + 4 \<le> pos (rfile r')" by simp
  from a1 a2 show "pos (rfile r) + 4 \<le> length (content (rfile r))" by simp
qed

subsection \<open>The meta-header scan of \<open>_read_header\<close>\<close>

definition decode_ascii :: "byte list \<Rightarrow> error + string" where
  "decode_ascii bs =
     (if list_all (\<lambda>c. byte_val c < 128) bs then Inr bs else Inl UnicodeDecodeError)"

text \<open>\<open>s.strip('\x00')\<close>\<close>

definition strip_nul :: "string \<Rightarrow> string" where
  "strip_nul s =
     rev (dropWhile (\<lambda>c. c = CHR 0x00) (rev (dropWhile (\<lambda>c. c = CHR 0x00) s)))"

text \<open>
  The \<open>while True\<close> loop inside the \<open>try\<close>: elements of group 2 are consumed, the value of
  (0002,0010) is remembered; the first element of another group is un-read and ends the
  loop. The loop has no other exit: at the end of the data the next read raises.
\<close>

function read_header_loop :: "reader \<Rightarrow> string option \<Rightarrow> error + (reader \<times> string option)" where
  "read_header_loop r uid =
     (case readDataElement r of
        Inl e \<Rightarrow> Inl e
      | Inr (grp, elt, v, r') \<Rightarrow>
          if grp = 0x02 then
            (if elt = 0x10 then
               (case decode_ascii v of
                  Inl e \<Rightarrow> Inl e
                | Inr s \<Rightarrow> read_header_loop r' (Some (strip_nul s)))
             else read_header_loop r' uid)
          else Inr (r'\<lparr>rfile := fseek (rfile r') (ftell (rfile r))\<rparr>, uid))"
  by pat_completeness auto
termination
proof (relation "measure (\<lambda>(r, uid). length (content (rfile r)) - pos (rfile r))")
  show "wf (measure (\<lambda>(r, uid). length (content (rfile r)) - pos (rfile r)))"
    by simp
next
  fix r :: reader and uid :: "string option" and x2 grp y elt ya v r' s
  assume "readDataElement r = Inr x2" "(grp, y) = x2" "(elt, ya) = y" "(v, r') = ya"
  then have "readDataElement r = Inr (grp, elt, v, r')" by simp
  from readDataElement_advances [OF this]
  show "((r', Some (strip_nul s)), r, uid)
        \<in> measure (\<lambda>(r, uid). length (content (rfile r)) - pos (rfile r))"
    by simp
next
  fix r :: reader and uid :: "string option" and x2 grp y elt ya v r'
  assume "readDataElement r = Inr x2" "(grp, y) = x2" "(elt, ya) = y" "(v, r') = ya"
  then have "readDataElement r = Inr (grp, elt, v, r')" by simp
  from readDataElement_advances [OF this]
  show "((r', uid), r, uid)
        \<in> measure (\<lambda>(r, uid). length (content (rfile r)) - pos (rfile r))"
    by simp
qed

declare read_header_loop.simps [simp del]

text \<open>
  \<open>_read_header\<close>: \<open>EOFError\<close> and \<open>struct.error\<close> inside the loop become the
  \<open>RuntimeError\<close> "End of file reached while still reading header"; any other exception
  passes through.
\<close>

definition read_header :: "builtins \<Rightarrow> reader \<Rightarrow> error + reader" where
  "read_header B r =
     (case read_header_loop r None of
        Inl e \<Rightarrow> if e = EOFError \<or> e = StructError then Inl RuntimeError_EndOfHeader else Inl e
      | Inr (r', uid) \<Rightarrow> handle_transfer_syntax B r' uid)"

subsection \<open>The tag dictionary and the VR converters\<close>

text \<open>
  \<open>MINIDICT\<close> in the order of the source. The dict literal names the keys
  (0x0020,0x0016) and (0x0020,0x0018) twice; in Python the later entry wins, so the
  lookup searches the list from its end.
\<close>

definition MINIDICT :: "((nat \<times> nat) \<times> (string \<times> string)) list" where
  "MINIDICT =
    [((0x7FE0, 0x0010), (''PixelData'', ''OB'')),
     ((0x0008, 0x0020), (''StudyDate'', ''DA'')),
     ((0x0008, 0x0021), (''SeriesDate'', ''DA'')),
     ((0x0008, 0x0022), (''AcquisitionDate'', ''DA'')),
     ((0x0008, 0x0023), (''ContentDate'', ''DA'')),
     ((0x0008, 0x0030), (''StudyTime'', ''TM'')),
     ((0x0008, 0x0031), (''SeriesTime'', ''TM'')),
     ((0x0008, 0x0032), (''AcquisitionTime'', ''TM'')),
     ((0x0008, 0x0033), (''ContentTime'', ''TM'')),
     ((0x0008, 0x0060), (''Modality'', ''CS'')),
     ((0x0008, 0x0070), (''Manufacturer'', ''LO'')),
     ((0x0008, 0x0080), (''InstitutionName'', ''LO'')),
     ((0x0008, 0x1030), (''StudyDescription'', ''LO'')),
     ((0x0008, 0x103E), (''SeriesDescription'', ''LO'')),
     ((0x0020, 0x0016), (''SOPClassUID'', ''UI'')),
     ((0x0020, 0x0018), (''SOPInstanceUID'', ''UI'')),
     ((0x0020, 0x000D), (''StudyInstanceUID'', ''UI'')),
     ((0x0020, 0x000E), (''SeriesInstanceUID'', ''UI'')),
     ((0x0008, 0x0117), (''ContextUID'', ''UI'')),
     ((0x0020, 0x0011), (''SeriesNumber'', ''IS'')),
     ((0x0020, 0x0012), (''AcquisitionNumber'', ''IS'')),
     ((0x0020, 0x0013), (''InstanceNumber'', ''IS'')),
     ((0x0020, 0x0014), (''IsotopeNumber'', ''IS'')),
     ((0x0020, 0x0015), (''PhaseNumber'', ''IS'')),
     ((0x0020, 0x0016), (''IntervalNumber'', ''IS'')),
     ((0x0020, 0x0017), (''TimeSlotNumber'', ''IS'')),
     ((0x0020, 0x0018), (''AngleNumber'', ''IS'')),
     ((0x0020, 0x0019), (''ItemNumber'', ''IS'')),
     ((0x0020, 0x0020), (''PatientOrientation'', ''CS'')),
     ((0x0020, 0x0030), (''ImagePosition'', ''CS'')),
     ((0x0020, 0x0032), (''ImagePositionPatient'', ''CS'')),
     ((0x0020, 0x0035), (''ImageOrientation'', ''CS'')),
     ((0x0020, 0x0037), (''ImageOrientationPatient'', ''CS'')),
     ((0x0010, 0x0010), (''PatientName'', ''PN'')),
     ((0x0010, 0x0020), (''PatientID'', ''LO'')),
     ((0x0010, 0x0030), (''PatientBirthDate'', ''DA'')),
     ((0x0010, 0x0040), (''PatientSex'', ''CS'')),
     ((0x0010, 0x1010), (''PatientAge'', ''AS'')),
     ((0x0010, 0x1020), (''PatientSize'', ''DS'')),
     ((0x0010, 0x1030), (''PatientWeight'', ''DS'')),
     ((0x0028, 0x0002), (''SamplesPerPixel'', ''US'')),
     ((0x0028, 0x0008), (''NumberOfFrames'', ''IS'')),
     ((0x0028, 0x0100), (''BitsAllocated'', ''US'')),
     ((0x0028, 0x0101), (''BitsStored'', ''US'')),
     ((0x0028, 0x0102), (''HighBit'', ''US'')),
     ((0x0028, 0x0103), (''PixelRepresentation'', ''US'')),
     ((0x0028, 0x0010), (''Rows'', ''US'')),
     ((0x0028, 0x0011), (''Columns'', ''US'')),
     ((0x0028, 0x0052), (''RescaleIntercept'', ''DS'')),
     ((0x0028, 0x0053), (''RescaleSlope'', ''DS'')),
     ((0x0028, 0x0030), (''PixelSpacing'', ''DS'')),
     ((0x0018, 0x0088), (''SliceSpacing'', ''DS''))]"

definition MINIDICT_get :: "nat \<times> nat \<Rightarrow> (string \<times> string) option" where
  "MINIDICT_get key = map_of (rev MINIDICT) key"

definition GROUPS :: "nat set" where
  "GROUPS = set (map (\<lambda>kv. fst (fst kv)) MINIDICT)"

text \<open>\<open>s.split(sep)\<close> for a separator of one character.\<close>

fun py_split :: "string \<Rightarrow> char \<Rightarrow> string list" where
  "py_split [] sep = [[]]"
| "py_split (c # cs) sep =
     (if c = sep then [] # py_split cs sep
      else (case py_split cs sep of
              w # ws \<Rightarrow> (c # w) # ws
            | [] \<Rightarrow> [[c]]))"

text \<open>
  \<open>_splitValues(x, type, '\\')\<close>: \<open>ty\<close> is \<open>float\<close> or \<open>int\<close> on a string, \<open>None\<close> where
  Python raises \<open>ValueError\<close>; then the stripped string itself is the result.
\<close>

definition splitValues :: "(string \<Rightarrow> val option) \<Rightarrow> byte list \<Rightarrow> error + val" where
  "splitValues ty x =
     (case decode_ascii x of
        Inl e \<Rightarrow> Inl e
      | Inr s0 \<Rightarrow>
          (let s = strip_nul s0
           in if CHR 0x5C \<in> set s then
                (let vs = map ty (filter (\<lambda>v. v \<noteq> []) (py_split s (CHR 0x5C)))
                 in if list_all (\<lambda>v. v \<noteq> None) vs then Inr (VTuple (map the vs))
                    else Inr (VStr s))
              else (case ty s of Some v \<Rightarrow> Inr v | None \<Rightarrow> Inr (VStr s))))"

definition py_float_str :: "builtins \<Rightarrow> string \<Rightarrow> val option" where
  "py_float_str B s = map_option VFloat (float_of_str B s)"

definition py_int_str :: "builtins \<Rightarrow> string \<Rightarrow> val option" where
  "py_int_str B s = map_option VInt (int_of_str B s)"

text \<open>
  \<open>self._converters.get(vr, lambda x: x)(value)\<close>, with the unpack prefix of the moment
  of the call.
\<close>

definition convert :: "builtins \<Rightarrow> char \<Rightarrow> string \<Rightarrow> byte list \<Rightarrow> error + val" where
  "convert B prefix vr x =
     (if vr = ''US'' then
        (case unpack_H prefix x of Inl e \<Rightarrow> Inl e | Inr n \<Rightarrow> Inr (VInt (int n)))
      else if vr = ''UL'' then
        (case unpack_I prefix x of Inl e \<Rightarrow> Inl e | Inr n \<Rightarrow> Inr (VInt (int n)))
      else if vr = ''DS'' then splitValues (py_float_str B) x
      else if vr = ''IS'' then splitValues (py_int_str B) x
      else if vr \<in> {''AS'', ''DA'', ''TM'', ''UI''} then
        (case decode_ascii x of Inl e \<Rightarrow> Inl e | Inr s \<Rightarrow> Inr (VStr (strip_nul s)))
      else if vr \<in> {''LO'', ''PN''} then
        (case decode_utf8 B x of
           None \<Rightarrow> Inl UnicodeDecodeError
         | Some s \<Rightarrow> Inr (VStr (py_rstrip B (strip_nul s))))
      else if vr = ''CS'' then splitValues (py_float_str B) x
      else Inr (VBytes x))"

subsection \<open>The body scan: \<open>_read_data_elements\<close>\<close>

text \<open>
  \<open>EOFError\<close> and \<open>struct.error\<close>, from the decoder or from a converter, end the scan
  normally with what was collected so far; any other exception passes through.
\<close>

definition end_of_scan :: "error \<Rightarrow> bool" where
  "end_of_scan e = (e = EOFError \<or> e = StructError)"

function read_data_elements :: "builtins \<Rightarrow> reader \<Rightarrow> error + reader" where
  "read_data_elements B r =
     (case readDataElement r of
        Inl e \<Rightarrow> if end_of_scan e then Inr r else Inl e
      | Inr (grp, elt, v, r') \<Rightarrow>
          if grp \<in> GROUPS then
            (case MINIDICT_get (grp, elt) of
               None \<Rightarrow> read_data_elements B r'
             | Some (name, vr) \<Rightarrow>
                 (case convert B (unpackPrefix r') vr v of
                    Inl e \<Rightarrow> if end_of_scan e then Inr r' else Inl e
                  | Inr x \<Rightarrow> read_data_elements B (r'\<lparr>rinfo := (rinfo r')(name \<mapsto> x)\<rparr>)))
          else read_data_elements B r')"
  by pat_completeness auto
termination
proof (relation "measure (\<lambda>(B, r). length (content (rfile r)) - pos (rfile r))")
  show "wf (measure (\<lambda>(B, r). length (content (rfile r)) - pos (rfile r)))"
    by simp
next
  fix B :: builtins and r :: reader and x2 grp y elt ya v r'
  assume "readDataElement r = Inr x2" "(grp, y) = x2" "(elt, ya) = y" "(v, r') = ya"
  then have "readDataElement r = Inr (grp, elt, v, r')" by simp
  from readDataElement_advances [OF this]
  show "((B, r'), B, r) \<in> measure (\<lambda>(B, r). length (content (rfile r)) - pos (rfile r))"
    by simp
next
  fix B :: builtins and r :: reader and x2 grp y elt ya v r' x2a name vr x
  assume "readDataElement r = Inr x2" "(grp, y) = x2" "(elt, ya) = y" "(v, r') = ya"
  then have "readDataElement r = Inr (grp, elt, v, r')" by simp
  from readDataElement_advances [OF this]
  show "((B, r'\<lparr>rinfo := (rinfo r')(name \<mapsto> x)\<rparr>), B, r)
        \<in> measure (\<lambda>(B, r). length (content (rfile r)) - pos (rfile r))"
    by simp
next
  fix B :: builtins and r :: reader and x2 grp y elt ya v r'
  assume "readDataElement r = Inr x2" "(grp, y) = x2" "(elt, ya) = y" "(v, r') = ya"
  then have "readDataElement r = Inr (grp, elt, v, r')" by simp
  from readDataElement_advances [OF this]
  show "((B, r'), B, r) \<in> measure (\<lambda>(B, r). length (content (rfile r)) - pos (rfile r))"
    by simp
qed

declare read_data_elements.simps [simp del]

subsection \<open>Attribute access and the Python operations on values\<close>

text \<open>
  \<open>self.Key\<close> through \<open>__getattr__\<close>: the value in the info dict, \<open>AttributeError\<close> when
  the key is absent. Comparisons follow Python 3: a number compares with a number, any
  other operand of \<open><\<close> or \<open>>\<close> raises \<open>TypeError\<close>.
\<close>

definition getattr :: "info \<Rightarrow> string \<Rightarrow> error + val" where
  "getattr i key = (case i key of None \<Rightarrow> Inl (AttributeError key) | Some v \<Rightarrow> Inr v)"

fun getattrs :: "info \<Rightarrow> string list \<Rightarrow> error + val list" where
  "getattrs i [] = Inr []"
| "getattrs i (k # ks) =
     (case getattr i k of
        Inl e \<Rightarrow> Inl e
      | Inr v \<Rightarrow> (case getattrs i ks of Inl e \<Rightarrow> Inl e | Inr vs \<Rightarrow> Inr (v # vs)))"

fun py_gt_int :: "val \<Rightarrow> int \<Rightarrow> error + bool" where
  "py_gt_int (VInt i) n = Inr (i > n)"
| "py_gt_int (VFloat x) n = Inr (x > of_int n)"
| "py_gt_int v n = Inl TypeError"

fun py_eq_int :: "val \<Rightarrow> int \<Rightarrow> bool" where
  "py_eq_int (VInt i) n = (i = n)"
| "py_eq_int (VFloat x) n = (x = of_int n)"
| "py_eq_int v n = False"

fun py_float :: "builtins \<Rightarrow> val \<Rightarrow> error + rat" where
  "py_float B (VInt i) = Inr (of_int i)"
| "py_float B (VFloat x) = Inr x"
| "py_float B (VStr s) = (case float_of_str B s of None \<Rightarrow> Inl ValueError | Some x \<Rightarrow> Inr x)"
| "py_float B (VBytes s) = (case float_of_str B s of None \<Rightarrow> Inl ValueError | Some x \<Rightarrow> Inr x)"
| "py_float B v = Inl TypeError"

text \<open>\<open>v[n]\<close> for a literal index \<open>n \<ge> 0\<close>.\<close>

fun py_index :: "val \<Rightarrow> nat \<Rightarrow> error + val" where
  "py_index (VTuple vs) n = (if n < length vs then Inr (vs ! n) else Inl IndexError)"
| "py_index (VStr s) n = (if n < length s then Inr (VStr [s ! n]) else Inl IndexError)"
| "py_index (VBytes s) n =
     (if n < length s then Inr (VInt (int (byte_val (s ! n)))) else Inl IndexError)"
| "py_index v n = Inl TypeError"

fun py_abs :: "val \<Rightarrow> error + val" where
  "py_abs (VInt i) = Inr (VInt \<bar>i\<bar>)"
| "py_abs (VFloat x) = Inr (VFloat \<bar>x\<bar>)"
| "py_abs v = Inl TypeError"

text \<open>
  \<open>==\<close> on values: numbers by value, strings and byte strings each among themselves,
  tuples element by element.
\<close>

fun py_eq :: "val \<Rightarrow> val \<Rightarrow> bool" and py_eq_list :: "val list \<Rightarrow> val list \<Rightarrow> bool" where
  "py_eq (VInt a) (VInt b) = (a = b)"
| "py_eq (VInt a) (VFloat b) = (of_int a = b)"
| "py_eq (VFloat a) (VInt b) = (a = of_int b)"
| "py_eq (VFloat a) (VFloat b) = (a = b)"
| "py_eq (VStr a) (VStr b) = (a = b)"
| "py_eq (VBytes a) (VBytes b) = (a = b)"
| "py_eq (VTuple a) (VTuple b) = py_eq_list a b"
| "py_eq VNone VNone = True"
| "py_eq u v = False"
| "py_eq_list [] [] = True"
| "py_eq_list (x # xs) (y # ys) = (py_eq x y \<and> py_eq_list xs ys)"
| "py_eq_list xs ys = False"

subsection \<open>Shape and sampling: \<open>_get_shape_and_sampling\<close>\<close>

text \<open>The first block: the shape, as pydicom derives it.\<close>

definition get_shape :: "info \<Rightarrow> error + val list" where
  "get_shape i =
     bindE (if ''NumberOfFrames'' \<in> dom i
            then bindE (getattr i ''NumberOfFrames'') (\<lambda>v. py_gt_int v 1)
            else Inr False)
       (\<lambda>frames.
          bindE (bindE (getattr i ''SamplesPerPixel'') (\<lambda>v. py_gt_int v 1))
            (\<lambda>samples.
               if frames then
                 (if samples
                  then getattrs i [''SamplesPerPixel'', ''NumberOfFrames'', ''Rows'', ''Columns'']
                  else getattrs i [''NumberOfFrames'', ''Rows'', ''Columns''])
               else
                 (if samples then
                    bindE (getattr i ''BitsAllocated'')
                      (\<lambda>bits. if py_eq_int bits 8
                               then getattrs i [''SamplesPerPixel'', ''Rows'', ''Columns'']
                               else Inl NotImplementedError)
                  else getattrs i [''Rows'', ''Columns''])))"

text \<open>
  The second block, before the adjustment to the shape: the two pixel spacings as floats,
  with the absolute slice spacing in front when the dataset has one.
\<close>

definition get_sampling :: "builtins \<Rightarrow> info \<Rightarrow> error + val list" where
  "get_sampling B i =
     bindE (bindE (bindE (getattr i ''PixelSpacing'') (\<lambda>v. py_index v 0)) (py_float B))
       (\<lambda>s0.
          bindE (bindE (bindE (getattr i ''PixelSpacing'') (\<lambda>v. py_index v 1)) (py_float B))
            (\<lambda>s1.
               if ''SliceSpacing'' \<in> dom i
               then bindE (bindE (getattr i ''SliceSpacing'') py_abs)
                      (\<lambda>a. Inr [a, VFloat s0, VFloat s1])
               else Inr [VFloat s0, VFloat s1]))"

text \<open>\<open>xs[-n:]\<close> for \<open>n \<ge> 0\<close> (\<open>xs[-0:]\<close> is the whole of \<open>xs\<close>).\<close>

definition last_n :: "nat \<Rightarrow> 'a list \<Rightarrow> 'a list" where
  "last_n n xs = (if n = 0 then xs else drop (length xs - n) xs)"

text \<open>\<open>(1.0,)*(len(shape)-len(sampling)) + sampling[-len(shape):]\<close>\<close>

definition fit_sampling :: "val list \<Rightarrow> val list \<Rightarrow> val list" where
  "fit_sampling shape sampling =
     replicate (length shape - length sampling) (VFloat 1) @ last_n (length shape) sampling"

definition get_shape_and_sampling :: "builtins \<Rightarrow> reader \<Rightarrow> error + reader" where
  "get_shape_and_sampling B r =
     bindE (get_shape (rinfo r))
       (\<lambda>shape.
          bindE (get_sampling B (rinfo r))
            (\<lambda>sampling.
               Inr (r\<lparr>rinfo := (rinfo r)(''shape'' \<mapsto> VTuple shape,
                                          ''sampling'' \<mapsto> VTuple (fit_sampling shape sampling))\<rparr>)))"

subsection \<open>\<open>_read\<close> and the constructor\<close>

text \<open>
  \<open>_read\<close>: the magic after the preamble, the header, the body, shape and sampling; a
  reader made from the name of a file on disk then closes its file.
\<close>

definition dicom_read :: "builtins \<Rightarrow> reader \<Rightarrow> error + reader" where
  "dicom_read B r =
     (let f = fseek (rfile r) 128
      in if fst (fread f 4) \<noteq> ''DICM'' then Inl NotADicomFile
         else
           bindE (read_header B (r\<lparr>rfile := snd (fread f 4)\<rparr>))
             (\<lambda>r1. bindE (read_data_elements B r1)
                (\<lambda>r2. bindE (get_shape_and_sampling B r2)
                   (\<lambda>r3. Inr (if on_disk r3 \<noteq> None then r3\<lparr>file_closed := True\<rparr> else r3)))))"

text \<open>\<open>SimpleDicomReader(file)\<close> for a file object and for the name of a file.\<close>

definition SimpleDicomReader :: "builtins \<Rightarrow> fileobj \<Rightarrow> error + reader" where
  "SimpleDicomReader B f = dicom_read B (reader_of_file f)"

definition SimpleDicomReader_named :: "builtins \<Rightarrow> string \<Rightarrow> byte list \<Rightarrow> error + reader" where
  "SimpleDicomReader_named B name bs = dicom_read B (reader_of_name name bs)"

subsection \<open>Pixel data: \<open>get_numpy_array\<close> and the rescale promotion\<close>

datatype dtype =
    np_int8 | np_int16 | np_int32
  | np_uint8 | np_uint16 | np_uint32
  | np_float32 | np_float64

text \<open>A numpy array: element type, shape, and the elements in C order.\<close>

record ndarray =
  nd_dtype :: dtype
  nd_shape :: "nat list"
  nd_flat :: "rat list"

fun py_len :: "val \<Rightarrow> error + nat" where
  "py_len (VBytes s) = Inr (length s)"
| "py_len (VStr s) = Inr (length s)"
| "py_len (VTuple vs) = Inr (length vs)"
| "py_len v = Inl TypeError"

text \<open>
  The deferred load inside \<open>get_numpy_array\<close>: when the pixel data element was located
  and the stored value is still the short placeholder, reopen the file if it was closed,
  seek to the recorded offset and read the value (by the undefined-length scan when the
  recorded length is \<open>0xFFFFFFFF\<close>).
\<close>

definition load_pixel_data :: "reader \<Rightarrow> error + reader" where
  "load_pixel_data r =
     (case pixel_data_loc r of
        None \<Rightarrow> Inr r
      | Some (here, vl) \<Rightarrow>
          bindE (bindE (getattr (rinfo r) ''PixelData'') py_len)
            (\<lambda>n. if n < 100 then
                   (let r1 = (if file_closed r
                              then (case on_disk r of
                                      Some bs \<Rightarrow> r\<lparr>rfile := BytesIO bs, file_closed := False\<rparr>
                                    | None \<Rightarrow> r)
                              else r);
                        f = fseek (rfile r1) here
                    in if vl = 0xFFFFFFFF then
                         (case read_undefined_length_value (unpackPrefix r1) f of
                            Inl e \<Rightarrow> Inl e
                          | Inr (v, f') \<Rightarrow>
                              Inr (r1\<lparr>rfile := f', rinfo := (rinfo r1)(''PixelData'' \<mapsto> VBytes v)\<rparr>))
                       else Inr (r1\<lparr>rfile := snd (fread f vl),
                                   rinfo := (rinfo r1)(''PixelData'' \<mapsto> VBytes (fst (fread f vl)))\<rparr>))
                 else Inr r))"

text \<open>
  \<open>get_numpy_array\<close>. The conversion of the loaded bytes into an array
  (\<open>_apply_slope_and_offset(_pixel_data_numpy())\<close>, numpy's \<open>fromstring\<close>, \<open>byteswap\<close>,
  \<open>reshape\<close> and \<open>astype\<close>) is the parameter \<open>to_array\<close>.
\<close>

definition get_numpy_array :: "(reader \<Rightarrow> error + ndarray) \<Rightarrow> reader \<Rightarrow> error + (ndarray \<times> reader)" where
  "get_numpy_array to_array r =
     (if ''PixelData'' \<notin> dom (rinfo r) then Inl TypeError_NoPixelData
      else
        bindE (load_pixel_data r)
          (\<lambda>r1. bindE (to_array r1)
             (\<lambda>data. Inr (data,
                r1\<lparr>rinfo := (rinfo r1)(''PixelData'' \<mapsto>
                  VBytes ''Data converted to numpy array, raw data removed to preserve memory'')\<rparr>))))"

text \<open>\<open>int(v)\<close>: truncation towards zero on a float.\<close>

fun py_int :: "builtins \<Rightarrow> val \<Rightarrow> error + int" where
  "py_int B (VInt i) = Inr i"
| "py_int B (VFloat x) = Inr (if x \<ge> 0 then \<lfloor>x\<rfloor> else \<lceil>x\<rceil>)"
| "py_int B (VStr s) = (case int_of_str B s of None \<Rightarrow> Inl ValueError | Some i \<Rightarrow> Inr i)"
| "py_int B (VBytes s) = (case int_of_str B s of None \<Rightarrow> Inl ValueError | Some i \<Rightarrow> Inr i)"
| "py_int B v = Inl TypeError"

text \<open>\<open>int(v) != v\<close>\<close>

definition not_integral :: "builtins \<Rightarrow> val \<Rightarrow> error + bool" where
  "not_integral B v = bindE (py_int B v) (\<lambda>n. Inr (\<not> py_eq (VInt n) v))"

text \<open>
  Lines 644 to 655 of \<open>_apply_slope_and_offset\<close>: whether there is anything to apply, and
  slope and offset as integers, or \<open>None\<close> when floats are needed. The \<open>or\<close> of the source
  does not look at the offset when the slope is already not integral.
\<close>

definition slope_and_offset :: "builtins \<Rightarrow> info \<Rightarrow> error + (bool \<times> (int \<times> int) option)" where
  "slope_and_offset B i =
     (let slope = (case i ''RescaleSlope'' of Some v \<Rightarrow> v | None \<Rightarrow> VInt 1);
          offset = (case i ''RescaleIntercept'' of Some v \<Rightarrow> v | None \<Rightarrow> VInt 0);
          needApply = (''RescaleSlope'' \<in> dom i \<or> ''RescaleIntercept'' \<in> dom i)
      in bindE (bindE (not_integral B slope)
                  (\<lambda>b. if b then Inr True else not_integral B offset))
           (\<lambda>needFloats.
              if needFloats then Inr (needApply, None)
              else bindE (py_int B slope)
                     (\<lambda>s. bindE (py_int B offset) (\<lambda>t. Inr (needApply, Some (s, t))))))"

text \<open>
  Lines 666 to 692: the type chosen from the least and the greatest element of the data
  and the integral slope and offset. The arithmetic on numpy scalars is taken as exact
  integer arithmetic.
\<close>

definition promoted_dtype :: "int \<Rightarrow> int \<Rightarrow> int \<Rightarrow> int \<Rightarrow> dtype" where
  "promoted_dtype data_min data_max slope offset =
     (let minReq0 = data_min; maxReq0 = data_max;
          minReq = Min {minReq0, minReq0 * slope + offset, maxReq0 * slope + offset};
          maxReq = Max {maxReq0, minReq * slope + offset, maxReq0 * slope + offset}
      in if minReq < 0 then
           (let maxReq' = max (- minReq) maxReq
            in if maxReq' < 2 ^ 7 then np_int8
               else if maxReq' < 2 ^ 15 then np_int16
               else if maxReq' < 2 ^ 31 then np_int32
               else np_float32)
         else
           (if maxReq < 2 ^ 8 then np_int8
            else if maxReq < 2 ^ 16 then np_int16
            else if maxReq < 2 ^ 32 then np_int32
            else np_float32))"

text \<open>
  The element type of the array that \<open>data *= slope; data += offset\<close> is applied to, for
  data of type \<open>dt\<close> with least element \<open>data_min\<close> and greatest element \<open>data_max\<close>.
\<close>

definition rescale_dtype :: "builtins \<Rightarrow> info \<Rightarrow> dtype \<Rightarrow> int \<Rightarrow> int \<Rightarrow> error + dtype" where
  "rescale_dtype B i dt data_min data_max =
     bindE (slope_and_offset B i)
       (\<lambda>(needApply, so).
          if \<not> needApply then Inr dt
          else if dt \<in> {np_float32, np_float64} then Inr dt
          else (case so of
                  None \<Rightarrow> Inr np_float32
                | Some (slope, offset) \<Rightarrow> Inr (promoted_dtype data_min data_max slope offset)))"

text \<open>The integers an integer element type holds (numpy's \<open>iinfo\<close>).\<close>

fun dtype_range :: "dtype \<Rightarrow> (int \<times> int) option" where
  "dtype_range np_int8 = Some (- (2 ^ 7), 2 ^ 7 - 1)"
| "dtype_range np_int16 = Some (- (2 ^ 15), 2 ^ 15 - 1)"
| "dtype_range np_int32 = Some (- (2 ^ 31), 2 ^ 31 - 1)"
| "dtype_range np_uint8 = Some (0, 2 ^ 8 - 1)"
| "dtype_range np_uint16 = Some (0, 2 ^ 16 - 1)"
| "dtype_range np_uint32 = Some (0, 2 ^ 32 - 1)"
| "dtype_range np_float32 = None"
| "dtype_range np_float64 = None"

definition dtype_holds :: "dtype \<Rightarrow> int \<Rightarrow> bool" where
  "dtype_holds dt x = (case dtype_range dt of None \<Rightarrow> False | Some (lo, hi) \<Rightarrow> lo \<le> x \<and> x \<le> hi)"

subsection \<open>The progress indicator\<close>

text \<open>
  The calls made on the progress indicator, in order. \<open>WriteError e\<close> is
  \<open>write(str(why))\<close> for the exception \<open>e\<close>; \<open>FinishFound n\<close> is
  \<open>finish('Found %i correct series.' % n)\<close>.
\<close>

datatype event =
    Start string string nat
  | SetProgress nat
  | Write string
  | WriteError error
  | FinishFound nat

subsection \<open>\<open>DicomSeries\<close>\<close>

record DicomSeries =
  suid :: val
  entries :: "reader list"
  sinfo :: info

definition new_series :: "val \<Rightarrow> DicomSeries" where
  "new_series u = \<lparr>suid = u, entries = [], sinfo = Map.empty\<rparr>"

text \<open>
  \<open>list.sort(key=...)\<close>: the keys are computed first (the first exception of a key
  is raised), then the list is sorted stably by them. The model sorts when the keys are
  all numbers, all strings, all byte strings, or all tuples of numbers; a list of at most
  one element is not compared at all; for any other mix of keys the model raises
  \<open>TypeError\<close>, as Python 3 does when it compares a number with a string.
\<close>

fun is_number :: "val \<Rightarrow> bool" where
  "is_number (VInt i) = True"
| "is_number (VFloat x) = True"
| "is_number v = False"

fun number_val :: "val \<Rightarrow> rat" where
  "number_val (VInt i) = of_int i"
| "number_val (VFloat x) = x"
| "number_val v = 0"

fun is_string :: "val \<Rightarrow> bool" where
  "is_string (VStr s) = True"
| "is_string v = False"

fun is_bytes :: "val \<Rightarrow> bool" where
  "is_bytes (VBytes s) = True"
| "is_bytes v = False"

fun chars_val :: "val \<Rightarrow> char list" where
  "chars_val (VStr s) = s"
| "chars_val (VBytes s) = s"
| "chars_val v = []"

fun is_number_tuple :: "val \<Rightarrow> bool" where
  "is_number_tuple (VTuple vs) = list_all is_number vs"
| "is_number_tuple v = False"

fun numbers_val :: "val \<Rightarrow> rat list" where
  "numbers_val (VTuple vs) = map number_val vs"
| "numbers_val v = []"

fun first_error :: "(error + 'a) list \<Rightarrow> error option" where
  "first_error [] = None"
| "first_error (Inl e # xs) = Some e"
| "first_error (Inr v # xs) = first_error xs"

definition key_val :: "('a \<Rightarrow> error + val) \<Rightarrow> 'a \<Rightarrow> val" where
  "key_val key x = (case key x of Inr v \<Rightarrow> v | Inl e \<Rightarrow> VNone)"

definition py_sort_by_key :: "('a \<Rightarrow> error + val) \<Rightarrow> 'a list \<Rightarrow> error + 'a list" where
  "py_sort_by_key key xs =
     (case first_error (map key xs) of
        Some e \<Rightarrow> Inl e
      | None \<Rightarrow>
          if length xs \<le> 1 then Inr xs
          else if list_all (\<lambda>x. is_number (key_val key x)) xs
            then Inr (sort_key (\<lambda>x. number_val (key_val key x)) xs)
          else if list_all (\<lambda>x. is_string (key_val key x)) xs
            then Inr (sort_key (\<lambda>x. chars_val (key_val key x)) xs)
          else if list_all (\<lambda>x. is_bytes (key_val key x)) xs
            then Inr (sort_key (\<lambda>x. chars_val (key_val key x)) xs)
          else if list_all (\<lambda>x. is_number_tuple (key_val key x)) xs
            then Inr (sort_key (\<lambda>x. numbers_val (key_val key x)) xs)
          else Inl TypeError)"

text \<open>\<open>DicomSeries._sort\<close>\<close>

definition sort_entries :: "reader list \<Rightarrow> error + reader list" where
  "sort_entries es = py_sort_by_key (\<lambda>k. getattr (rinfo k) ''InstanceNumber'') es"

text \<open>\<open>float(ds.ImagePositionPatient[2])\<close>\<close>

definition z_pos :: "builtins \<Rightarrow> reader \<Rightarrow> error + rat" where
  "z_pos B ds =
     bindE (bindE (getattr (rinfo ds) ''ImagePositionPatient'') (\<lambda>v. py_index v 2)) (py_float B)"

subsection \<open>\<open>splitSerieIfRequired\<close>\<close>

text \<open>
  The loop over the slices after the first. Its state is the previous slice \<open>ds1\<close>, the
  distance estimate and the list of buckets \<open>L2\<close>. \<open>split_step\<close> is the body of the loop
  for the current slice \<open>ds2\<close>; the result comes with the warnings written to the
  progress indicator. \<open>if distance and ...\<close> tests that the distance is not zero.
\<close>

type_synonym split_state = "reader \<times> rat \<times> reader list list"

definition split_step :: "builtins \<Rightarrow> split_state \<Rightarrow> reader \<Rightarrow> (error + split_state) \<times> event list" where
  "split_step B st ds2 =
     (case st of (ds1, distance, L2) \<Rightarrow>
        (case z_pos B ds1 of
           Inl e \<Rightarrow> (Inl e, [])
         | Inr pos1 \<Rightarrow>
             (case z_pos B ds2 of
                Inl e \<Rightarrow> (Inl e, [])
              | Inr pos2 \<Rightarrow>
                  (let newDist = \<bar>pos1 - pos2\<bar>
                   in if distance \<noteq> 0 \<and> newDist > 2.1 * distance then
                        (Inr (ds2, 0, L2 @ [[ds2]]), [])
                      else
                        (Inr (ds2, newDist, butlast L2 @ [last L2 @ [ds2]]),
                         if distance \<noteq> 0 \<and> newDist > 1.5 * distance
                         then [Write (''Warning: missing file after '' @ py_repr B (filename ds1))]
                         else [])))))"

fun split_loop :: "builtins \<Rightarrow> split_state \<Rightarrow> reader list \<Rightarrow> (error + split_state) \<times> event list" where
  "split_loop B st [] = (Inr st, [])"
| "split_loop B st (ds2 # rest) =
     (case split_step B st ds2 of
        (Inl e, w) \<Rightarrow> (Inl e, w)
      | (Inr st', w) \<Rightarrow> (let res = split_loop B st' rest in (fst res, w @ snd res)))"

text \<open>
  The first part of \<open>splitSerieIfRequired\<close>: the sorted entries and the buckets. A first
  slice without \<open>ImagePositionPatient\<close> ends the function before any bucket is made; the
  sorted entries are then the only bucket.
\<close>

definition split_buckets :: "builtins \<Rightarrow> reader list \<Rightarrow>
    (error + (reader list \<times> reader list list)) \<times> event list" where
  "split_buckets B es =
     (case sort_entries es of
        Inl e \<Rightarrow> (Inl e, [])
      | Inr L \<Rightarrow>
          (case L of
             [] \<Rightarrow> (Inl IndexError, [])
           | ds1 # rest \<Rightarrow>
               if ''ImagePositionPatient'' \<notin> dom (rinfo ds1) then (Inr (L, [L]), [])
               else (case split_loop B (ds1, 0, [[ds1]]) rest of
                       (Inl e, evs) \<Rightarrow> (Inl e, evs)
                     | (Inr (ds, distance, L2), evs) \<Rightarrow> (Inr (L, L2), evs))))"

text \<open>
  The second part: with more than one bucket, the serie at index \<open>i\<close> of the list is
  replaced by one new serie per bucket, in order; else the list keeps the serie, its
  entries sorted.
\<close>

definition splitSerieIfRequired :: "builtins \<Rightarrow> nat \<Rightarrow> DicomSeries list \<Rightarrow>
    (error + DicomSeries list) \<times> event list" where
  "splitSerieIfRequired B i series =
     (let serie = series ! i
      in case split_buckets B (entries serie) of
           (Inl e, evs) \<Rightarrow> (Inl e, evs)
         | (Inr (L, L2), evs) \<Rightarrow>
             if length L2 > 1 then
               (Inr (take i series
                     @ map (\<lambda>b. (new_series (suid serie))\<lparr>entries := b\<rparr>) L2
                     @ drop (Suc i) series), evs)
             else (Inr (series[i := serie\<lparr>entries := L\<rparr>]), evs))"

subsection \<open>\<open>DicomSeries._finish\<close>\<close>

definition dimensions_of :: "reader \<Rightarrow> error + val list" where
  "dimensions_of ds = getattrs (rinfo ds) [''Rows'', ''Columns'']"

definition sampling_of :: "builtins \<Rightarrow> reader \<Rightarrow> error + rat list" where
  "sampling_of B ds =
     bindE (bindE (bindE (getattr (rinfo ds) ''PixelSpacing'') (\<lambda>v. py_index v 0)) (py_float B))
       (\<lambda>s0. bindE (bindE (bindE (getattr (rinfo ds) ''PixelSpacing'') (\<lambda>v. py_index v 1)) (py_float B))
          (\<lambda>s1. Inr [s0, s1]))"

text \<open>
  The loop of \<open>_finish\<close> over all slices (the first one included, as in the source). The
  result is the sum of the distances and the slice the loop saw last.
\<close>

fun finish_loop :: "builtins \<Rightarrow> val list \<Rightarrow> rat list \<Rightarrow> reader \<Rightarrow> rat \<Rightarrow> reader list \<Rightarrow>
    (error + (rat \<times> reader)) \<times> event list" where
  "finish_loop B dimensions sampling ds1 distance_sum [] = (Inr (distance_sum, ds1), [])"
| "finish_loop B dimensions sampling ds1 distance_sum (ds2 # rest) =
     (case z_pos B ds1 of
        Inl e \<Rightarrow> (Inl e, [])
      | Inr pos1 \<Rightarrow>
     (case z_pos B ds2 of
        Inl e \<Rightarrow> (Inl e, [])
      | Inr pos2 \<Rightarrow>
     (case dimensions_of ds2 of
        Inl e \<Rightarrow> (Inl e, [])
      | Inr dimensions2 \<Rightarrow>
     (case sampling_of B ds2 of
        Inl e \<Rightarrow> (Inl e, [])
      | Inr sampling2 \<Rightarrow>
          if \<not> py_eq_list dimensions dimensions2 then (Inl ValueError_Dimensions, [])
          else
            (let w = (if sampling \<noteq> sampling2
                      then [Write ''Warning: sampling does not match.''] else []);
                 res = finish_loop B dimensions sampling ds2
                         (distance_sum + \<bar>pos1 - pos2\<bar>) rest
             in (fst res, w @ snd res))))))"

text \<open>\<open>(n,) + v\<close> for a value \<open>v\<close> of an info dict: only a tuple can be appended to a tuple.\<close>

fun tuple_cons :: "val \<Rightarrow> val \<Rightarrow> error + val" where
  "tuple_cons x (VTuple vs) = Inr (VTuple (x # vs))"
| "tuple_cons x v = Inl TypeError"

definition getitem :: "info \<Rightarrow> string \<Rightarrow> error + val" where
  "getitem i key = (case i key of None \<Rightarrow> Inl (KeyError key) | Some v \<Rightarrow> Inr v)"

definition finish :: "builtins \<Rightarrow> DicomSeries \<Rightarrow> (error + DicomSeries) \<times> event list" where
  "finish B serie =
     (let L = entries serie
      in if length L = 0 then (Inr serie, [])
         else if length L = 1 then (Inr (serie\<lparr>sinfo := rinfo (L ! 0)\<rparr>), [])
         else
           (let ds1 = L ! 0
            in case dimensions_of ds1 of
                 Inl e \<Rightarrow> (Inl e, [])
               | Inr dimensions \<Rightarrow>
              (case sampling_of B ds1 of
                 Inl e \<Rightarrow> (Inl e, [])
               | Inr sampling \<Rightarrow>
              (case finish_loop B dimensions sampling ds1 0 L of
                 (Inl e, evs) \<Rightarrow> (Inl e, evs)
               | (Inr (distance_sum, ds2), evs) \<Rightarrow>
                   (let distance_mean = distance_sum / of_nat (length L - 1)
                    in (bindE (bindE (getitem (rinfo ds2) ''shape'') (tuple_cons (VInt (int (length L)))))
                          (\<lambda>shape.
                             bindE (bindE (getitem (rinfo ds2) ''sampling'')
                                      (tuple_cons (VFloat distance_mean)))
                               (\<lambda>sampling'.
                                  Inr (serie\<lparr>sinfo := (rinfo (L ! 0))(''shape'' \<mapsto> shape,
                                                          ''sampling'' \<mapsto> sampling')\<rparr>))),
                        evs))))))"

subsection \<open>\<open>process_directory\<close>\<close>

text \<open>
  The directory listing is the input: the files found by \<open>list_files\<close>, each with its
  name and its bytes.
\<close>

text \<open>\<open>filename.count(sub) > 0\<close>\<close>

fun contains_bytes :: "string \<Rightarrow> string \<Rightarrow> bool" where
  "contains_bytes [] sub = (sub = [])"
| "contains_bytes (c # cs) sub = (take (length sub) (c # cs) = sub \<or> contains_bytes cs sub)"

text \<open>
  The dict \<open>series\<close>, as an association list in insertion order:
  \<open>if suid not in series: series[suid] = DicomSeries(...)\<close>, then
  \<open>series[suid]._append(dcm)\<close>.
\<close>

fun register :: "val \<Rightarrow> reader \<Rightarrow> DicomSeries list \<Rightarrow> DicomSeries list" where
  "register u dcm [] = [(new_series u)\<lparr>entries := [dcm]\<rparr>]"
| "register u dcm (s # ss) =
     (if py_eq (suid s) u then s\<lparr>entries := entries s @ [dcm]\<rparr> # ss
      else s # register u dcm ss)"

fun gather :: "builtins \<Rightarrow> (string \<times> byte list) list \<Rightarrow> DicomSeries list \<Rightarrow> nat \<Rightarrow>
    DicomSeries list \<times> event list" where
  "gather B [] series count = (series, [])"
| "gather B ((name, bs) # files) series count =
     (if contains_bytes name ''DICOMDIR'' then gather B files series count
      else case SimpleDicomReader_named B name bs of
             Inl e \<Rightarrow>
               if e = NotADicomFile then gather B files series count
               else (let res = gather B files series count
                     in (fst res, WriteError e # snd res))
           | Inr dcm \<Rightarrow>
               (case getattr (rinfo dcm) ''SeriesInstanceUID'' of
                  Inl e \<Rightarrow> gather B files series count
                | Inr u \<Rightarrow>
                    (let res = gather B files (register u dcm series) (count + 1)
                     in (fst res, SetProgress (count + 1) # snd res))))"

text \<open>
  \<open>for serie in reversed([serie for serie in series]): splitSerieIfRequired(...)\<close>: from
  the last index down to the first, so that the indices still to come are not moved.
\<close>

fun split_all :: "builtins \<Rightarrow> nat \<Rightarrow> DicomSeries list \<Rightarrow> (error + DicomSeries list) \<times> event list" where
  "split_all B 0 series = (Inr series, [])"
| "split_all B (Suc i) series =
     (case splitSerieIfRequired B i series of
        (Inl e, evs) \<Rightarrow> (Inl e, evs)
      | (Inr series', evs) \<Rightarrow>
          (let res = split_all B i series' in (fst res, evs @ snd res)))"

text \<open>
  The finishing loop: a serie whose \<open>_finish\<close> raises is left out (\<open>except Exception:
  pass\<close>); after each serie, \<open>set_progress(i+1)\<close>.
\<close>

fun finish_all :: "builtins \<Rightarrow> nat \<Rightarrow> DicomSeries list \<Rightarrow> DicomSeries list \<times> event list" where
  "finish_all B i [] = ([], [])"
| "finish_all B i (s # ss) =
     (let r = finish B s; rest = finish_all B (Suc i) ss
      in ((case fst r of Inl e \<Rightarrow> fst rest | Inr s' \<Rightarrow> s' # fst rest),
          snd r @ [SetProgress (i + 1)] @ snd rest))"

definition process_directory :: "builtins \<Rightarrow> (string \<times> byte list) list \<Rightarrow>
    (error + DicomSeries list) \<times> event list" where
  "process_directory B files =
     (let g = gather B files [] 0;
          evs1 = Start ''examining files'' ''files'' (length files) # snd g
      in case py_sort_by_key (\<lambda>x. Inr (suid x)) (fst g) of
           Inl e \<Rightarrow> (Inl e, evs1)
         | Inr series \<Rightarrow>
             (case split_all B (length series) series of
                (Inl e, evs2) \<Rightarrow> (Inl e, evs1 @ evs2)
              | (Inr series', evs2) \<Rightarrow>
                  (let f = finish_all B 0 series'
                   in (Inr (fst f), evs1 @ evs2 @ snd f @ [FinishFound (length series')]))))"

subsection \<open>The host interface: \<open>DicomFormat.Reader\<close>\<close>

datatype expect_kind = EXPECT_IM | EXPECT_MIM | EXPECT_VOL | EXPECT_MVOL | EXPECT_other

text \<open>
  The reader after \<open>_open\<close>: what the request expects, the info and the array of the
  given file (no array when the request names a directory), and \<open>r_series\<close>, the value of
  the lazy property \<open>series\<close> (what \<open>process_directory\<close> returns for the request).
\<close>

record Reader =
  expect :: expect_kind
  r_info :: info
  r_data :: "ndarray option"
  r_series :: "error + DicomSeries list"

text \<open>\<open>xs[i]\<close> on a list, and \<open>a[i]\<close> on an array, for an integer \<open>i\<close> of either sign.\<close>

definition list_index :: "'a list \<Rightarrow> int \<Rightarrow> error + 'a" where
  "list_index xs i =
     (let n = int (length xs); j = (if i < 0 then i + n else i)
      in if 0 \<le> j \<and> j < n then Inr (xs ! nat j) else Inl IndexError)"

definition nd_index :: "ndarray \<Rightarrow> int \<Rightarrow> error + ndarray" where
  "nd_index a i =
     (case nd_shape a of
        [] \<Rightarrow> Inl IndexError
      | n # sh \<Rightarrow>
          (let j = (if i < 0 then i + int n else i); k = prod_list sh
           in if 0 \<le> j \<and> j < int n
              then Inr (a\<lparr>nd_shape := sh, nd_flat := take k (drop (nat j * k) (nd_flat a))\<rparr>)
              else Inl IndexError))"

text \<open>
  \<open>DicomSeries.get_numpy_array\<close>: the array, and the info dict of the serie afterwards.
  A serie of one file shares its info dict with that file (\<open>_finish\<close> does not copy it),
  so the dict shows what \<open>get_numpy_array\<close> of the file wrote into it. The stacking of
  several slices into one volume (numpy's \<open>zeros\<close> and slice assignment) is the parameter
  \<open>stack\<close>.
\<close>

definition series_get_numpy_array ::
    "(reader \<Rightarrow> error + ndarray) \<Rightarrow> (DicomSeries \<Rightarrow> error + ndarray) \<Rightarrow> DicomSeries \<Rightarrow>
     error + (ndarray \<times> info)" where
  "series_get_numpy_array to_array stack serie =
     (if length (entries serie) = 0 then Inl ValueError_NoFiles
      else if length (entries serie) = 1 then
        bindE (get_numpy_array to_array (entries serie ! 0)) (\<lambda>(a, dcm). Inr (a, rinfo dcm))
      else bindE (stack serie) (\<lambda>a. Inr (a, sinfo serie)))"

text \<open>
  The first lines of \<open>_get_length\<close>, \<open>_get_data\<close> and \<open>_get_meta_data\<close>: without an array,
  take the first file of the first serie. The info dict is the one of that file, after
  its \<open>get_numpy_array\<close>.
\<close>

definition ensure_data :: "(reader \<Rightarrow> error + ndarray) \<Rightarrow> Reader \<Rightarrow> error + (ndarray \<times> Reader)" where
  "ensure_data to_array rd =
     (case r_data rd of
        Some d \<Rightarrow> Inr (d, rd)
      | None \<Rightarrow>
          bindE (r_series rd)
            (\<lambda>ss. bindE (list_index ss 0)
               (\<lambda>serie. bindE (list_index (entries serie) 0)
                  (\<lambda>dcm. bindE (get_numpy_array to_array dcm)
                     (\<lambda>(d, dcm'). Inr (d, rd\<lparr>r_info := rinfo dcm', r_data := Some d\<rparr>))))))"

definition nslices_of :: "ndarray \<Rightarrow> nat" where
  "nslices_of d = (if length (nd_shape d) = 3 then nd_shape d ! 0 else 1)"

definition get_length :: "(reader \<Rightarrow> error + ndarray) \<Rightarrow> Reader \<Rightarrow> error + (nat \<times> Reader)" where
  "get_length to_array rd0 =
     bindE (ensure_data to_array rd0)
       (\<lambda>(d, rd).
          (let nslices = nslices_of d
           in if expect rd = EXPECT_IM then Inr (nslices, rd)
              else if expect rd = EXPECT_MIM then
                (if nslices > 1 then Inr (nslices, rd)
                 else bindE (r_series rd)
                        (\<lambda>ss. Inr (sum_list (map (\<lambda>serie. length (entries serie)) ss), rd)))
              else if expect rd = EXPECT_VOL then
                (if nslices > 1 then Inr (1, rd)
                 else bindE (r_series rd) (\<lambda>ss. Inr (length ss, rd)))
              else if expect rd = EXPECT_MVOL then
                bindE (r_series rd) (\<lambda>ss. Inr (length ss, rd))
              else Inl ValueError_Expect))"

definition get_data ::
    "(reader \<Rightarrow> error + ndarray) \<Rightarrow> (DicomSeries \<Rightarrow> error + ndarray) \<Rightarrow> Reader \<Rightarrow> int \<Rightarrow>
     error + ((ndarray \<times> info) \<times> Reader)" where
  "get_data to_array stack rd0 index =
     bindE (ensure_data to_array rd0)
       (\<lambda>(d, rd).
          (let nslices = nslices_of d
           in if expect rd = EXPECT_IM then
                (if nslices > 1 then bindE (nd_index d index) (\<lambda>a. Inr ((a, r_info rd), rd))
                 else if index = 0 then Inr ((d, r_info rd), rd)
                 else Inl IndexError_OneSlice)
              else if expect rd = EXPECT_MIM then
                (if index = 0 \<and> nslices > 1 then
                   bindE (nd_index d index) (\<lambda>a. Inr ((a, r_info rd), rd))
                 else
                   bindE (r_series rd)
                     (\<lambda>ss. bindE (list_index (concat (map entries ss)) index)
                        (\<lambda>dcm. bindE (get_numpy_array to_array dcm)
                           (\<lambda>(a, dcm'). Inr ((a, rinfo dcm'), rd)))))
              else if expect rd = EXPECT_VOL \<or> expect rd = EXPECT_MVOL then
                (if index = 0 \<and> nslices > 1 then Inr ((d, r_info rd), rd)
                 else
                   bindE (r_series rd)
                     (\<lambda>ss. bindE (list_index ss index)
                        (\<lambda>serie. bindE (series_get_numpy_array to_array stack serie)
                           (\<lambda>res. Inr (res, rd)))))
              else Inl ValueError_Expect))"

subsection \<open>The encoding the decoder reads\<close>

text \<open>
  The source only reads. To speak about files of a given form, this is the explicit-VR
  encoding of one element as \<open>_readDataElement\<close> expects it: group and element as 16-bit
  words, the two bytes of the VR, the length (two reserved bytes and 32 bits for the VRs
  \<open>OB\<close>, \<open>OW\<close>, \<open>SQ\<close>, \<open>UN\<close>, else 16 bits), the value. \<open>pack_I\<close> is
  \<open>struct.pack(prefix + 'I', n)\<close>.
\<close>

definition pack_I :: "char \<Rightarrow> nat \<Rightarrow> byte list" where
  "pack_I prefix n =
     (if prefix = CHR ''<''
      then [char_of (n mod 256), char_of (n div 256 mod 256),
            char_of (n div 65536 mod 256), char_of (n div 16777216)]
      else [char_of (n div 16777216), char_of (n div 65536 mod 256),
            char_of (n div 256 mod 256), char_of (n mod 256)])"

definition long_vr :: "string \<Rightarrow> bool" where
  "long_vr vr = (vr \<in> {''OB'', ''OW'', ''SQ'', ''UN''})"

definition explicit_element :: "char \<Rightarrow> nat \<Rightarrow> nat \<Rightarrow> string \<Rightarrow> byte list \<Rightarrow> byte list" where
  "explicit_element p grp elt vr v =
     pack_H p grp @ pack_H p elt @ vr
     @ (if long_vr vr
        then [CHR 0x00, CHR 0x00] @ pack_I p (length v)
        else pack_H p (length v))
     @ v"

definition length_field :: "string \<Rightarrow> nat \<Rightarrow> byte list" where
  "length_field vr n =
     (if long_vr vr then [CHR 0x00, CHR 0x00] @ pack_I (CHR ''<'') n else pack_H (CHR ''<'') n)"

text \<open>
  A meta header: elements of group 2, each given by its element number, VR and value.
  It is well formed when every field fits its width, a 32-bit length is not the
  undefined-length sentinel, and the value of the transfer syntax UID (0002,0010) is
  ASCII.
\<close>

definition wf_meta_element :: "nat \<times> string \<times> byte list \<Rightarrow> bool" where
  "wf_meta_element h =
     (case h of (elt, vr, v) \<Rightarrow>
        elt < 65536 \<and> length vr = 2
        \<and> (if long_vr vr then length v < 4294967295 else length v < 65536)
        \<and> (elt = 0x10 \<longrightarrow> list_all (\<lambda>c. byte_val c < 128) v))"

definition meta_header :: "(nat \<times> string \<times> byte list) list \<Rightarrow> byte list" where
  "meta_header hs = concat (map (\<lambda>(elt, vr, v). explicit_element (CHR ''<'') 2 elt vr v) hs)"

section \<open>Concrete inputs\<close>

text \<open>
  Built-ins for evaluation: tables that agree with Python on the strings they list, and
  fail elsewhere.
\<close>

definition B_example :: builtins where
  "B_example =
     \<lparr>float_of_str = map_of [(''0.5'', 1 / 2), (''0.25'', 1 / 4), (''2.50'', 5 / 2), (''1'', 1), (''2'', 2)],
      int_of_str = map_of [(''1'', 1), (''2'', 2), (''3'', 3)],
      decode_utf8 = Some,
      py_rstrip = (\<lambda>s. rev (dropWhile (\<lambda>c. c = CHR '' '') (rev s))),
      py_repr = (\<lambda>s. [CHR 0x27] @ s @ [CHR 0x27]),
      zlib_decompress = (\<lambda>z. None)\<rparr>"

text \<open>
  A complete file: preamble, magic, a meta header with the transfer syntax UID of
  explicit VR little endian, and a body with slice spacing 2.50, one sample per pixel,
  2 rows, 3 columns, pixel spacing 0.5 by 0.25, and six bytes of pixel data.
\<close>

definition example_file :: "byte list" where
  "example_file =
     replicate 128 (CHR 0x00) @ ''DICM''
     @ explicit_element (CHR ''<'') 0x0002 0x0010 ''UI'' (''1.2.840.10008.1.2.1'' @ [CHR 0x00])
     @ explicit_element (CHR ''<'') 0x0018 0x0088 ''DS'' ''2.50''
     @ explicit_element (CHR ''<'') 0x0028 0x0002 ''US'' [CHR 0x01, CHR 0x00]
     @ explicit_element (CHR ''<'') 0x0028 0x0010 ''US'' [CHR 0x02, CHR 0x00]
     @ explicit_element (CHR ''<'') 0x0028 0x0011 ''US'' [CHR 0x03, CHR 0x00]
     @ explicit_element (CHR ''<'') 0x0028 0x0030 ''DS'' (''0.5'' @ [CHR 0x5C] @ ''0.25'')
     @ explicit_element (CHR ''<'') 0x7FE0 0x0010 ''OB''
         [CHR 0x00, CHR 0x01, CHR 0x02, CHR 0x03, CHR 0x04, CHR 0x05]"

definition example_reader :: reader where
  "example_reader =
     \<lparr>filename = ''<unknown file>'',
      rfile = \<lparr>content = example_file, pos = 236\<rparr>,
      pixel_data_loc = Some (230, 6), is_implicit_VR = False,
      is_little_endian = True, unpackPrefix = CHR ''<'',
      rinfo =
        [''TransferSyntaxUID'' \<mapsto> VStr ''1.2.840.10008.1.2.1'',
         ''SliceSpacing'' \<mapsto> VFloat (5 / 2),
         ''SamplesPerPixel'' \<mapsto> VInt 1, ''Rows'' \<mapsto> VInt 2,
         ''Columns'' \<mapsto> VInt 3,
         ''PixelSpacing'' \<mapsto> VTuple [VFloat (1 / 2), VFloat (1 / 4)],
         ''PixelData'' \<mapsto> VBytes ''Deferred loading of pixel data'',
         ''shape'' \<mapsto> VTuple [VInt 2, VInt 3],
         ''sampling'' \<mapsto> VTuple [VFloat (1 / 2), VFloat (1 / 4)]],
      on_disk = None, file_closed = False\<rparr>"

text \<open>A file that ends after its meta header.\<close>

definition meta_only_file :: "byte list" where
  "meta_only_file =
     replicate 128 (CHR 0x00) @ ''DICM''
     @ explicit_element (CHR ''<'') 0x0002 0x0010 ''UI'' (''1.2.840.10008.1.2.1'' @ [CHR 0x00])"

definition example_meta_header :: "(nat \<times> string \<times> byte list) list" where
  "example_meta_header =
     [(0x0001, ''OB'', [CHR 0x00, CHR 0x01]),
      (0x0010, ''UI'', ''1.2.840.10008.1.2.1'' @ [CHR 0x00])]"

text \<open>
  Slices for the series builder: instance number \<open>n\<close>, position \<open>z\<close> along the third
  axis, \<open>rows\<close> rows of 3 columns, and pixel spacing \<open>p\<close> in both directions, with the
  shape and sampling a parse derives from these.
\<close>

definition slice_of :: "int \<Rightarrow> rat \<Rightarrow> int \<Rightarrow> rat \<Rightarrow> reader" where
  "slice_of n z rows p =
     (reader_of_file (BytesIO []))\<lparr>rinfo :=
        [''InstanceNumber'' \<mapsto> VInt n,
         ''ImagePositionPatient'' \<mapsto> VTuple [VFloat 0, VFloat 0, VFloat z],
         ''Rows'' \<mapsto> VInt rows, ''Columns'' \<mapsto> VInt 3,
         ''PixelSpacing'' \<mapsto> VTuple [VFloat p, VFloat p],
         ''shape'' \<mapsto> VTuple [VInt rows, VInt 3],
         ''sampling'' \<mapsto> VTuple [VFloat p, VFloat p]]\<rparr>"

definition slice_at :: "int \<Rightarrow> rat \<Rightarrow> reader" where
  "slice_at n z = slice_of n z 2 (1 / 2)"

definition serie_of :: "reader list \<Rightarrow> DicomSeries" where
  "serie_of es = (new_series (VStr ''1.2.3''))\<lparr>entries := es\<rparr>"

text \<open>Six slices at the positions 0, 1, 2, 10, 11, 12, not in the order of their numbers.\<close>

definition example_entries :: "reader list" where
  "example_entries =
     [slice_at 4 10, slice_at 2 1, slice_at 1 0, slice_at 6 12, slice_at 3 2, slice_at 5 11]"

text \<open>
  Two slices of the same dimensions whose pixel spacings differ; two slices that agree;
  two slices whose dimensions differ; a serie of a single slice.
\<close>

definition mixed_serie :: DicomSeries where
  "mixed_serie = serie_of [slice_of 1 0 2 (1 / 2), slice_of 2 3 2 1]"

definition uniform_serie :: DicomSeries where
  "uniform_serie = serie_of [slice_at 1 0, slice_at 2 3]"

definition bad_serie :: DicomSeries where
  "bad_serie = serie_of [slice_of 1 0 2 (1 / 2), slice_of 2 1 4 (1 / 2)]"

definition good_serie :: DicomSeries where
  "good_serie = serie_of [slice_at 1 0]"

text \<open>
  A host reader that expects multiple images and has loaded a volume of two slices,
  beside a serie of two files of one slice each.
\<close>

definition example_volume :: ndarray where
  "example_volume = \<lparr>nd_dtype = np_uint8, nd_shape = [2, 1, 2], nd_flat = [10, 11, 20, 21]\<rparr>"

definition pixel_slice :: "int \<Rightarrow> rat \<Rightarrow> reader" where
  "pixel_slice n z =
     (slice_at n z)\<lparr>rinfo := (rinfo (slice_at n z))(''PixelData'' \<mapsto> VBytes [CHR 0x4D, CHR 0x4E])\<rparr>"

text \<open>A conversion that reads two 8-bit pixels from the stored bytes.\<close>

definition example_to_array :: "reader \<Rightarrow> error + ndarray" where
  "example_to_array r =
     (case rinfo r ''PixelData'' of
        Some (VBytes bs) \<Rightarrow>
          Inr \<lparr>nd_dtype = np_uint8, nd_shape = [1, 2], nd_flat = map (\<lambda>c. of_nat (byte_val c)) bs\<rparr>
      | _ \<Rightarrow> Inl TypeError)"

definition example_host :: Reader where
  "example_host =
     \<lparr>expect = EXPECT_MIM, r_info = Map.empty, r_data = Some example_volume,
      r_series = Inr [serie_of [pixel_slice 1 0, pixel_slice 2 1]]\<rparr>"

section \<open>General lemmas\<close>

lemma bindE_Inr: "bindE m f = Inr y \<Longrightarrow> \<exists>x. m = Inr x \<and> f x = Inr y"
  by (cases m) (simp_all add: bindE_def)

lemma bindE_simps [simp]: "bindE (Inl e) f = Inl e" "bindE (Inr x) f = f x"
  by (simp_all add: bindE_def)

lemmas eval_file =
  explicit_element_def long_vr_def pack_H_def pack_I_def char_of_def bit_iff_odd

lemmas eval_decoder =
  reader_of_file_def init_reader_def BytesIO_def fread_def fseek_def ftell_def Let_def
  read_header_def read_header_loop.simps readDataElement_def read_H_def read_I_def
  unpack_H_def unpack_I_def unpack_n_def byte_val_def read_value_length_def read_value_def
  decode_ascii_def strip_nul_def handle_transfer_syntax_def set_mode_def

lemmas eval_body =
  read_data_elements.simps GROUPS_def MINIDICT_def MINIDICT_get_def convert_def
  splitValues_def py_float_str_def py_int_str_def end_of_scan_def
  get_shape_and_sampling_def get_shape_def get_sampling_def getattr_def fit_sampling_def
  last_n_def

lemma example_parse:
  "dicom_read B_example (reader_of_file (BytesIO example_file)) = Inr example_reader"
  by (simp add: example_file_def example_reader_def B_example_def dicom_read_def
      eval_file eval_decoder eval_body)

lemma slice_of_simps:
  "getattr (rinfo (slice_of n z rows p)) ''InstanceNumber'' = Inr (VInt n)"
  "z_pos B (slice_of n z rows p) = Inr z"
  "''ImagePositionPatient'' \<in> dom (rinfo (slice_of n z rows p))"
  "dimensions_of (slice_of n z rows p) = Inr [VInt rows, VInt 3]"
  "sampling_of B (slice_of n z rows p) = Inr [p, p]"
  "getitem (rinfo (slice_of n z rows p)) ''shape'' = Inr (VTuple [VInt rows, VInt 3])"
  "getitem (rinfo (slice_of n z rows p)) ''sampling'' = Inr (VTuple [VFloat p, VFloat p])"
  by (simp_all add: slice_of_def getattr_def getitem_def z_pos_def dimensions_of_def
      sampling_of_def)

lemma slice_at_simps:
  "getattr (rinfo (slice_at n z)) ''InstanceNumber'' = Inr (VInt n)"
  "z_pos B (slice_at n z) = Inr z"
  "''ImagePositionPatient'' \<in> dom (rinfo (slice_at n z))"
  by (simp_all add: slice_at_def slice_of_simps)

section \<open>The transfer-syntax switch\<close>

text \<open>What the switch decides: the two mode flags, the unpack prefix and the file.\<close>

definition mode_of :: "reader \<Rightarrow> bool \<times> bool \<times> char \<times> fileobj" where
  "mode_of r = (is_implicit_VR r, is_little_endian r, unpackPrefix r, rfile r)"

text \<open>
  Claim C3. The switch maps an absent UID and \<open>1.2.840.10008.1.2.1\<close> to explicit VR,
  little endian; \<open>1.2.840.10008.1.2.2\<close> to explicit VR, big endian;
  \<open>1.2.840.10008.1.2\<close> to implicit VR, little endian; \<open>1.2.840.10008.1.2.1.99\<close> to explicit
  VR, little endian over a new in-memory file that holds the raw-DEFLATE decompression of
  the rest of the stream (the exception of \<open>zlib.decompress\<close> when that fails);
  \<open>1.2.840.10008.1.2.4.70\<close> to explicit VR, little endian; every other UID raises the
  \<open>RuntimeError\<close> for an unsupported transfer syntax. In all cases but the deflated one
  the file and its cursor are left as they are.
\<close>

theorem transfer_syntax_switch:
  "map_sum id mode_of (handle_transfer_syntax B r None) = Inr (False, True, CHR ''<'', rfile r)
   \<and> map_sum id mode_of (handle_transfer_syntax B r (Some ''1.2.840.10008.1.2.1''))
       = Inr (False, True, CHR ''<'', rfile r)
   \<and> map_sum id mode_of (handle_transfer_syntax B r (Some ''1.2.840.10008.1.2.2''))
       = Inr (False, False, CHR ''>'', rfile r)
   \<and> map_sum id mode_of (handle_transfer_syntax B r (Some ''1.2.840.10008.1.2''))
       = Inr (True, True, CHR ''<'', rfile r)
   \<and> map_sum id mode_of (handle_transfer_syntax B r (Some ''1.2.840.10008.1.2.1.99''))
       = (case zlib_decompress B (drop (pos (rfile r)) (content (rfile r))) of
            None \<Rightarrow> Inl ZlibError
          | Some unzipped \<Rightarrow> Inr (False, True, CHR ''<'', BytesIO unzipped))
   \<and> map_sum id mode_of (handle_transfer_syntax B r (Some ''1.2.840.10008.1.2.4.70''))
       = Inr (False, True, CHR ''<'', rfile r)
   \<and> (uid \<notin> {None, Some ''1.2.840.10008.1.2.1'', Some ''1.2.840.10008.1.2.2'',
               Some ''1.2.840.10008.1.2'', Some ''1.2.840.10008.1.2.1.99'',
               Some ''1.2.840.10008.1.2.4.70''}
        \<longrightarrow> handle_transfer_syntax B r uid = Inl RuntimeError_TransferSyntax)"
  by (simp add: handle_transfer_syntax_def set_mode_def mode_of_def inflate_def bindE_def
      fread_all_def Let_def split: option.splits)

text \<open>The switch at the UID of JPEG Baseline, which the reader does not support.\<close>

theorem transfer_syntax_switch_witness:
  "Some ''1.2.840.10008.1.2.4.50''
     \<notin> {None, Some ''1.2.840.10008.1.2.1'', Some ''1.2.840.10008.1.2.2'',
        Some ''1.2.840.10008.1.2'', Some ''1.2.840.10008.1.2.1.99'',
        Some ''1.2.840.10008.1.2.4.70''}
   \<and> handle_transfer_syntax B_example (reader_of_file (BytesIO ''abc''))
        (Some ''1.2.840.10008.1.2.4.50'') = Inl RuntimeError_TransferSyntax"
  using transfer_syntax_switch
    [of B_example "reader_of_file (BytesIO ''abc'')" "Some ''1.2.840.10008.1.2.4.50''"]
  by simp

section \<open>The rescale promotion\<close>

text \<open>
  Claim C2. The claim asks for an unsigned type when the required minimum is not
  negative. For unsigned 8-bit data between 0 and 200 with slope 1 and intercept 0 (both
  present in the dataset) the required range is 0 to 200: the source chooses the signed
  8-bit type in its branch "Unsigned integer type", which does not hold 200, where the
  unsigned 8-bit type would.
\<close>

theorem rescale_unsigned_data:
  "rescale_dtype B (Map.empty(''RescaleSlope'' \<mapsto> VFloat 1, ''RescaleIntercept'' \<mapsto> VFloat 0))
     np_uint8 0 200 = Inr np_int8
   \<and> \<not> dtype_holds np_int8 200 \<and> dtype_holds np_uint8 200"
  by (simp add: rescale_dtype_def slope_and_offset_def not_integral_def bindE_def
      promoted_dtype_def dtype_holds_def Let_def)

section \<open>The undefined-length scan\<close>

text \<open>
  Claim C1. The claim promises the value for every tail, the empty one included. On the
  source that holds nothing but the delimiter and the four zero bytes (empty value, empty
  tail) the first window is short, and the scan raises \<open>EOFError\<close> without searching it,
  although the delimiter is there.
\<close>

theorem scan_short_tail:
  "read_undefined_length_value (CHR ''<'')
     (BytesIO ([] @ bytes_to_find (CHR ''<'') @ [CHR 0x00, CHR 0x00, CHR 0x00, CHR 0x00] @ []))
   = Inl EOFError"
  by (simp add: read_undefined_length_value_def scan_loop.simps read_window_length
      read_size_def BytesIO_def bytes_to_find_def pack_H_def)

section \<open>Shape and sampling after a parse\<close>

lemma getattrs_length: "getattrs i ks = Inr vs \<Longrightarrow> length vs = length ks"
  by (induction ks arbitrary: vs) (auto split: sum.splits)

lemma get_shape_length:
  assumes "get_shape i = Inr shape"
  shows "2 \<le> length shape \<and> length shape \<le> 4"
proof -
  from assms have "\<exists>ks. getattrs i ks = Inr shape \<and> 2 \<le> length ks \<and> length ks \<le> 4"
    unfolding get_shape_def
    by (fastforce dest!: bindE_Inr split: if_splits simp del: getattrs.simps)
  then show ?thesis by (auto simp: getattrs_length simp del: getattrs.simps)
qed

lemma get_sampling_length:
  assumes "get_sampling B i = Inr raw"
  shows "length raw = (if ''SliceSpacing'' \<in> dom i then 3 else 2)"
  using assms unfolding get_sampling_def
  by (auto dest!: bindE_Inr split: if_splits)

lemma fit_sampling_length: "0 < length shape \<Longrightarrow> length (fit_sampling shape sampling) = length shape"
  by (simp add: fit_sampling_def last_n_def)

lemma fit_sampling_eq:
  "0 < length shape \<Longrightarrow> fit_sampling shape raw =
     replicate (length shape - length raw) (VFloat 1) @ drop (length raw - length shape) raw"
  by (simp add: fit_sampling_def last_n_def)

lemma getattr_upd: "getattr (i(k' \<mapsto> v)) k = (if k = k' then Inr v else getattr i k)"
  by (simp add: getattr_def)

lemma getattrs_upd: "k' \<notin> set ks \<Longrightarrow> getattrs (i(k' \<mapsto> v)) ks = getattrs i ks"
  by (induction ks) (auto simp: getattr_upd split: sum.splits)

lemma get_shape_frame:
  "get_shape (i(''shape'' \<mapsto> a, ''sampling'' \<mapsto> b)) = get_shape i"
  by (simp add: get_shape_def getattr_upd cong: if_cong sum.case_cong)

lemma get_sampling_frame:
  "get_sampling B (i(''shape'' \<mapsto> a, ''sampling'' \<mapsto> b)) = get_sampling B i"
  by (simp add: get_sampling_def getattr_upd cong: if_cong)

lemma get_shape_and_sampling_result:
  assumes "get_shape_and_sampling B r = Inr r'"
  shows "\<exists>shape raw. get_shape (rinfo r) = Inr shape \<and> get_sampling B (rinfo r) = Inr raw
           \<and> rinfo r' = (rinfo r)(''shape'' \<mapsto> VTuple shape,
                                   ''sampling'' \<mapsto> VTuple (fit_sampling shape raw))"
  using assms unfolding get_shape_and_sampling_def
  by (auto dest!: bindE_Inr)

lemma dicom_read_result:
  assumes "dicom_read B r0 = Inr r"
  shows "\<exists>r2 r3. get_shape_and_sampling B r2 = Inr r3 \<and> rinfo r = rinfo r3"
proof -
  from assms obtain r1 r2 r3 where
    "read_data_elements B r1 = Inr r2" and g: "get_shape_and_sampling B r2 = Inr r3" and
    r: "r = (if on_disk r3 \<noteq> None then r3\<lparr>file_closed := True\<rparr> else r3)"
    unfolding dicom_read_def Let_def
    by (auto dest!: bindE_Inr split: if_splits)
  from r have "rinfo r = rinfo r3" by simp
  with g show ?thesis by blast
qed

text \<open>
  Claim C10. After every successful parse of a single file the info dict holds a shape
  and a sampling tuple of the same length. The sampling is the raw sampling of the
  dataset (the absolute slice spacing when present, then the two pixel spacings), with
  1.0 repeated in front when it is shorter than the shape and its leading entries
  dropped when it is longer; with a slice spacing and a 2-D shape, what is left is the
  raw sampling without the slice spacing.
\<close>

theorem sampling_fits_shape:
  assumes "dicom_read B r0 = Inr r"
  shows "\<exists>shape raw.
           get_shape (rinfo r) = Inr shape \<and> get_sampling B (rinfo r) = Inr raw
         \<and> rinfo r ''shape'' = Some (VTuple shape)
         \<and> rinfo r ''sampling'' = Some (VTuple
              (replicate (length shape - length raw) (VFloat 1)
               @ drop (length raw - length shape) raw))
         \<and> length (replicate (length shape - length raw) (VFloat 1)
                   @ drop (length raw - length shape) raw) = length shape
         \<and> (''SliceSpacing'' \<in> dom (rinfo r) \<and> length shape = 2 \<longrightarrow>
              replicate (length shape - length raw) (VFloat 1)
               @ drop (length raw - length shape) raw = tl raw)"
proof -
  from dicom_read_result [OF assms] obtain r2 r3 where
    "get_shape_and_sampling B r2 = Inr r3" and "rinfo r = rinfo r3" by blast
  with get_shape_and_sampling_result [of B r2 r3] obtain shape raw where
    sh: "get_shape (rinfo r2) = Inr shape" and sa: "get_sampling B (rinfo r2) = Inr raw" and
    i: "rinfo r = (rinfo r2)(''shape'' \<mapsto> VTuple shape, ''sampling'' \<mapsto> VTuple (fit_sampling shape raw))"
    by auto
  from get_shape_length [OF sh] have len: "2 \<le> length shape" "length shape \<le> 4" by simp_all
  then have pos: "0 < length shape" by (cases shape) auto
  have rawlen: "length raw = (if ''SliceSpacing'' \<in> dom (rinfo r2) then 3 else 2)"
    using sa by (rule get_sampling_length)
  have dom: "''SliceSpacing'' \<in> dom (rinfo r) \<longleftrightarrow> ''SliceSpacing'' \<in> dom (rinfo r2)"
    by (simp add: i)
  have "get_shape (rinfo r) = Inr shape" by (simp add: i get_shape_frame sh)
  moreover have "get_sampling B (rinfo r) = Inr raw" by (simp add: i get_sampling_frame sa)
  moreover have "rinfo r ''shape'' = Some (VTuple shape)" by (simp add: i)
  moreover have "rinfo r ''sampling'' = Some (VTuple
              (replicate (length shape - length raw) (VFloat 1)
               @ drop (length raw - length shape) raw))"
    by (simp add: i fit_sampling_eq [OF pos])
  moreover have "length (replicate (length shape - length raw) (VFloat 1)
                   @ drop (length raw - length shape) raw) = length shape"
    using fit_sampling_length [OF pos, of raw] by (simp add: fit_sampling_eq [OF pos])
  moreover have "''SliceSpacing'' \<in> dom (rinfo r) \<and> length shape = 2 \<longrightarrow>
              replicate (length shape - length raw) (VFloat 1)
               @ drop (length raw - length shape) raw = tl raw"
  proof
    assume a: "''SliceSpacing'' \<in> dom (rinfo r) \<and> length shape = 2"
    with rawlen dom have "length raw = 3" by simp
    with a show "replicate (length shape - length raw) (VFloat 1)
               @ drop (length raw - length shape) raw = tl raw"
      by (simp add: drop_Suc)
  qed
  ultimately show ?thesis by blast
qed


theorem sampling_fits_shape_witness:
  "dicom_read B_example (reader_of_file (BytesIO example_file)) = Inr example_reader
   \<and> ''SliceSpacing'' \<in> dom (rinfo example_reader)
   \<and> rinfo example_reader ''shape'' = Some (VTuple [VInt 2, VInt 3])
   \<and> rinfo example_reader ''sampling'' = Some (VTuple [VFloat (1 / 2), VFloat (1 / 4)])
   \<and> (\<exists>shape raw.
         get_shape (rinfo example_reader) = Inr shape
       \<and> get_sampling B_example (rinfo example_reader) = Inr raw
       \<and> rinfo example_reader ''sampling'' = Some (VTuple
            (replicate (length shape - length raw) (VFloat 1)
             @ drop (length raw - length shape) raw))
       \<and> length (replicate (length shape - length raw) (VFloat 1)
                 @ drop (length raw - length shape) raw) = length shape)"
proof -
  have "''SliceSpacing'' \<in> dom (rinfo example_reader)"
    and "rinfo example_reader ''shape'' = Some (VTuple [VInt 2, VInt 3])"
    and "rinfo example_reader ''sampling'' = Some (VTuple [VFloat (1 / 2), VFloat (1 / 4)])"
    by (simp_all add: example_reader_def)
  with sampling_fits_shape [OF example_parse] example_parse show ?thesis
    by blast
qed

section \<open>A file that ends after the meta header\<close>

lemma byte_val_char_of: "byte_val (char_of (n::nat)) = n mod 256"
  by (simp add: byte_val_def)

lemma unpack_pack_H: "n < 65536 \<Longrightarrow> unpack_H (CHR ''<'') (pack_H (CHR ''<'') n) = Inr n"
  by (simp add: unpack_H_def unpack_n_def pack_H_def byte_val_char_of)

lemma unpack_pack_I: "n < 4294967296 \<Longrightarrow> unpack_I (CHR ''<'') (pack_I (CHR ''<'') n) = Inr n"
proof -
  assume n: "n < 4294967296"
  define a where "a = n div 256"
  define b where "b = a div 256"
  define c where "c = b div 256"
  have b': "n div 65536 = b"
    unfolding b_def a_def by (simp add: div_mult2_eq [symmetric])
  have c': "n div 16777216 = c"
    unfolding c_def b_def a_def by (simp add: div_mult2_eq [symmetric])
  have c_small: "c < 256"
    using n unfolding c' [symmetric] by simp
  have n_eq: "n = 256 * a + n mod 256" unfolding a_def by simp
  have a_eq: "a = 256 * b + a mod 256" unfolding b_def by simp
  have b_eq: "b = 256 * c + b mod 256" unfolding c_def by simp
  have "16777216 * c + 65536 * (b mod 256) + 256 * (a mod 256) + n mod 256 = n"
    using n_eq a_eq b_eq by linarith
  then show ?thesis
    using c_small
    by (simp add: unpack_I_def unpack_n_def pack_I_def byte_val_char_of b' c' a_def [symmetric])
qed

lemma length_pack_H: "length (pack_H p n) = 2"
  by (simp add: pack_H_def)

lemma length_pack_I: "length (pack_I p n) = 4"
  by (simp add: pack_I_def)

text \<open>Reading exactly the next bytes.\<close>

lemma fread_exact:
  assumes "content f = pre @ xs @ post" and "pos f = length pre" and "n = length xs"
  shows "fst (fread f n) = xs" and "snd (fread f n) = f\<lparr>pos := length pre + length xs\<rparr>"
  using assms by (simp_all add: fread_def Let_def)


lemma fread_at:
  assumes "content f = pre @ rest" and "pos f = length pre"
  shows "fread f n = (take n rest, f\<lparr>pos := length pre + min n (length rest)\<rparr>)"
  using assms by (simp add: fread_def Let_def)

lemma read_H_at:
  assumes "content f = pre @ pack_H (CHR ''<'') n @ rest" and "pos f = length pre" and "n < 65536"
  shows "read_H (CHR ''<'') f = Inr (n, f\<lparr>pos := length pre + 2\<rparr>)"
proof -
  have "fread f 2 = (pack_H (CHR ''<'') n, f\<lparr>pos := length pre + 2\<rparr>)"
    using fread_at [OF assms(1,2), of 2] by (simp add: length_pack_H)
  then show ?thesis
    by (simp add: read_H_def unpack_pack_H [OF assms(3)])
qed

lemma read_I_at:
  assumes "content f = pre @ pack_I (CHR ''<'') n @ rest" and "pos f = length pre"
    and "n < 4294967296"
  shows "read_I (CHR ''<'') f = Inr (n, f\<lparr>pos := length pre + 4\<rparr>)"
proof -
  have "fread f 4 = (pack_I (CHR ''<'') n, f\<lparr>pos := length pre + 4\<rparr>)"
    using fread_at [OF assms(1,2), of 4] by (simp add: length_pack_I)
  then show ?thesis
    by (simp add: read_I_def unpack_pack_I [OF assms(3)])
qed

lemma read_value_length_at:
  assumes r: "\<not> is_implicit_VR r" "unpackPrefix r = CHR ''<''"
    and c: "content f = pre @ vr @ length_field vr n @ rest" and p: "pos f = length pre"
    and vr: "length vr = 2"
    and n: "if long_vr vr then n < 4294967296 else n < 65536"
  shows "read_value_length r f
         = Inr (n, f\<lparr>pos := length pre + 2 + length (length_field vr n)\<rparr>)"
proof -
  have f1: "fread f 2 = (vr, f\<lparr>pos := length pre + 2\<rparr>)"
    using fread_at [OF c p, of 2] vr by simp
  show ?thesis
  proof (cases "long_vr vr")
    case True
    let ?f1 = "f\<lparr>pos := length pre + 2\<rparr>"
    have c1: "content ?f1 = (pre @ vr) @ ([CHR 0x00, CHR 0x00] @ pack_I (CHR ''<'') n @ rest)"
      using c True by (simp add: length_field_def)
    have p1: "pos ?f1 = length (pre @ vr)" using vr by simp
    have f2: "fread ?f1 2 = ([CHR 0x00, CHR 0x00], f\<lparr>pos := length pre + 4\<rparr>)"
      using fread_at [OF c1 p1, of 2] vr by simp
    let ?f2 = "f\<lparr>pos := length pre + 4\<rparr>"
    have c2: "content ?f2 = (pre @ vr @ [CHR 0x00, CHR 0x00]) @ pack_I (CHR ''<'') n @ rest"
      using c True by (simp add: length_field_def)
    have p2: "pos ?f2 = length (pre @ vr @ [CHR 0x00, CHR 0x00])" using vr by simp
    have "read_I (CHR ''<'') ?f2 = Inr (n, ?f2\<lparr>pos := length (pre @ vr @ [CHR 0x00, CHR 0x00]) + 4\<rparr>)"
      using n True by (intro read_I_at [OF c2 p2]) simp
    then show ?thesis
      using True r f1 f2 vr
      by (simp add: read_value_length_def Let_def long_vr_def length_field_def length_pack_I)
  next
    case False
    let ?f1 = "f\<lparr>pos := length pre + 2\<rparr>"
    have c1: "content ?f1 = (pre @ vr) @ pack_H (CHR ''<'') n @ rest"
      using c False by (simp add: length_field_def)
    have p1: "pos ?f1 = length (pre @ vr)" using vr by simp
    have "read_H (CHR ''<'') ?f1 = Inr (n, ?f1\<lparr>pos := length (pre @ vr) + 2\<rparr>)"
      using n False by (intro read_H_at [OF c1 p1]) simp
    then show ?thesis
      using False r f1 vr
      by (simp add: read_value_length_def Let_def long_vr_def length_field_def length_pack_H)
  qed
qed

lemma explicit_element_eq:
  "explicit_element (CHR ''<'') grp elt vr v
   = pack_H (CHR ''<'') grp @ pack_H (CHR ''<'') elt @ vr @ length_field vr (length v) @ v"
  by (simp add: explicit_element_def length_field_def)

lemma readDataElement_explicit:
  assumes r: "\<not> is_implicit_VR r" "unpackPrefix r = CHR ''<''"
    and c: "content (rfile r) = pre @ explicit_element (CHR ''<'') grp elt vr v @ post"
    and p: "pos (rfile r) = length pre"
    and wf: "grp < 65536" "elt < 65536" "length vr = 2"
      "if long_vr vr then length v < 4294967295 else length v < 65536"
    and np: "\<not> (grp = 0x7FE0 \<and> elt = 0x0010)"
  shows "readDataElement r
         = Inr (grp, elt, v,
                r\<lparr>rfile := (rfile r)\<lparr>pos := length pre
                    + length (explicit_element (CHR ''<'') grp elt vr v)\<rparr>\<rparr>)"
proof -
  let ?f = "rfile r"
  let ?lf = "length_field vr (length v)"
  have c0: "content ?f = pre @ pack_H (CHR ''<'') grp
              @ (pack_H (CHR ''<'') elt @ vr @ ?lf @ v @ post)"
    using c by (simp add: explicit_element_eq)
  have h1: "read_H (CHR ''<'') ?f = Inr (grp, ?f\<lparr>pos := length pre + 2\<rparr>)"
    by (rule read_H_at [OF c0 p wf(1)])
  let ?f1 = "?f\<lparr>pos := length pre + 2\<rparr>"
  have c1: "content ?f1 = (pre @ pack_H (CHR ''<'') grp) @ pack_H (CHR ''<'') elt
              @ (vr @ ?lf @ v @ post)"
    using c0 by simp
  have p1: "pos ?f1 = length (pre @ pack_H (CHR ''<'') grp)" by (simp add: length_pack_H)
  have h2: "read_H (CHR ''<'') ?f1 = Inr (elt, ?f\<lparr>pos := length pre + 4\<rparr>)"
    using read_H_at [OF c1 p1 wf(2)] by (simp add: length_pack_H)
  let ?f2 = "?f\<lparr>pos := length pre + 4\<rparr>"
  have c2: "content ?f2 = (pre @ pack_H (CHR ''<'') grp @ pack_H (CHR ''<'') elt)
              @ vr @ ?lf @ (v @ post)"
    using c0 by simp
  have p2: "pos ?f2 = length (pre @ pack_H (CHR ''<'') grp @ pack_H (CHR ''<'') elt)"
    by (simp add: length_pack_H)
  have n: "if long_vr vr then length v < 4294967296 else length v < 65536"
    using wf(4) by (simp split: if_splits)
  have h3: "read_value_length r ?f2
            = Inr (length v, ?f\<lparr>pos := length pre + 6 + length ?lf\<rparr>)"
    using read_value_length_at [OF r c2 p2 wf(3) n] by (simp add: length_pack_H)
  let ?f3 = "?f\<lparr>pos := length pre + 6 + length ?lf\<rparr>"
  have c3: "content ?f3 = (pre @ pack_H (CHR ''<'') grp @ pack_H (CHR ''<'') elt @ vr @ ?lf)
              @ (v @ post)"
    using c0 by simp
  have p3: "pos ?f3 = length (pre @ pack_H (CHR ''<'') grp @ pack_H (CHR ''<'') elt @ vr @ ?lf)"
    using wf(3) by (simp add: length_pack_H)
  have nu: "length v \<noteq> 4294967295"
    using wf(4) by (auto split: if_splits)
  have rd: "fread ?f3 (length v) = (v, ?f\<lparr>pos := length pre + 6 + length ?lf + length v\<rparr>)"
    using fread_at [OF c3 p3, of "length v"] wf(3) by (simp add: length_pack_H)
  have h4: "read_value r grp elt (length v) ?f3
            = Inr (grp, elt, v, r\<lparr>rfile := ?f\<lparr>pos := length pre + 6 + length ?lf + length v\<rparr>\<rparr>)"
    using np nu rd by (auto simp: read_value_def)
  have len: "length (explicit_element (CHR ''<'') grp elt vr v) = 6 + length ?lf + length v"
    using wf(3) by (simp add: explicit_element_eq length_pack_H)
  show ?thesis
    using h1 h2 h3 h4 by (simp add: readDataElement_def r len add.assoc)
qed


lemma readDataElement_at_end:
  assumes "pos (rfile r) = length (content (rfile r))"
  shows "readDataElement r = Inl StructError"
  using assms
  by (simp add: readDataElement_def read_H_def fread_def unpack_H_def unpack_n_def)

lemma read_header_loop_meta_only:
  assumes "\<not> is_implicit_VR r" and "unpackPrefix r = CHR ''<''"
    and "content (rfile r) = pre @ meta_header hs" and "pos (rfile r) = length pre"
    and "list_all wf_meta_element hs"
  shows "read_header_loop r uid = Inl StructError"
  using assms
proof (induction hs arbitrary: r pre uid)
  case Nil
  then have "pos (rfile r) = length (content (rfile r))" by (simp add: meta_header_def)
  then show ?case
    by (simp add: read_header_loop.simps [of r uid] readDataElement_at_end)
next
  case (Cons h hs)
  obtain elt vr v where h: "h = (elt, vr, v)" by (cases h)
  let ?enc = "explicit_element (CHR ''<'') 2 elt vr v"
  from Cons.prems(5) have wfh: "wf_meta_element h" and wfs: "list_all wf_meta_element hs"
    by simp_all
  from wfh h have wf: "elt < 65536" "length vr = 2"
      "if long_vr vr then length v < 4294967295 else length v < 65536"
      "elt = 0x10 \<longrightarrow> list_all (\<lambda>c. byte_val c < 128) v"
    by (simp_all add: wf_meta_element_def)
  have c: "content (rfile r) = pre @ ?enc @ meta_header hs"
    using Cons.prems(3) h by (simp add: meta_header_def)
  let ?r' = "r\<lparr>rfile := (rfile r)\<lparr>pos := length pre + length ?enc\<rparr>\<rparr>"
  have rd: "readDataElement r = Inr (2, elt, v, ?r')"
    by (rule readDataElement_explicit [OF Cons.prems(1,2) c Cons.prems(4) _ wf(1,2,3)]) simp_all
  have r'1: "\<not> is_implicit_VR ?r'" and r'2: "unpackPrefix ?r' = CHR ''<''"
    using Cons.prems(1,2) by simp_all
  have r'3: "content (rfile ?r') = (pre @ ?enc) @ meta_header hs" using c by simp
  have r'4: "pos (rfile ?r') = length (pre @ ?enc)" by simp
  note IH = Cons.IH [OF r'1 r'2 r'3 r'4 wfs]
  show ?case
  proof (cases "elt = 0x10")
    case True
    with wf(4) have "decode_ascii v = Inr v" by (simp add: decode_ascii_def)
    with True rd IH show ?thesis
      by (simp add: read_header_loop.simps [of r uid])
  next
    case False
    with rd IH show ?thesis
      by (simp add: read_header_loop.simps [of r uid])
  qed
qed

text \<open>
  Claim C7, as stated, at the file \<open>meta_only_file\<close> (preamble, magic, the transfer syntax
  UID, nothing else): the claim says that parsing succeeds. It does not: the header loop
  ends only at an element of another group, so the end of the data is the
  \<open>RuntimeError\<close> "End of file reached while still reading header".
\<close>

theorem meta_only_file_fails:
  "dicom_read B_example (reader_of_file (BytesIO meta_only_file)) = Inl RuntimeError_EndOfHeader"
  by (simp add: meta_only_file_def B_example_def dicom_read_def eval_file eval_decoder)

text \<open>
  Claim C7, amended. For every file that consists of a preamble of 128 bytes, the magic
  and a well-formed meta header, with no body element, parsing raises the
  \<open>RuntimeError\<close> of the header scan, and there is no dataset; \<open>get_numpy_array\<close> on a
  dataset whose info has no \<open>PixelData\<close> raises the \<open>TypeError\<close> "No pixel data found in
  this dataset".
\<close>

theorem meta_header_only_fails:
  assumes "length preamble = 128" and "list_all wf_meta_element hs"
  shows "dicom_read B (init_reader name (BytesIO (preamble @ ''DICM'' @ meta_header hs)) disk)
           = Inl RuntimeError_EndOfHeader
         \<and> (''PixelData'' \<notin> dom (rinfo d) \<longrightarrow>
              get_numpy_array to_array d = Inl TypeError_NoPixelData)"
proof -
  let ?bs = "preamble @ ''DICM'' @ meta_header hs"
  let ?r0 = "init_reader name (BytesIO ?bs) disk"
  let ?f = "fseek (rfile ?r0) 128"
  have c: "content ?f = preamble @ (''DICM'' @ meta_header hs)"
    by (simp add: init_reader_def BytesIO_def fseek_def)
  have p: "pos ?f = length preamble"
    using assms(1) by (simp add: fseek_def)
  have rd: "fread ?f 4 = (''DICM'', ?f\<lparr>pos := 132\<rparr>)"
    using fread_at [OF c p, of 4] assms(1) by simp
  let ?r1 = "?r0\<lparr>rfile := ?f\<lparr>pos := 132\<rparr>\<rparr>"
  have "read_header_loop ?r1 None = Inl StructError"
  proof (rule read_header_loop_meta_only [OF _ _ _ _ assms(2)])
    show "\<not> is_implicit_VR ?r1" by (simp add: init_reader_def)
    show "unpackPrefix ?r1 = CHR ''<''" by (simp add: init_reader_def)
    show "content (rfile ?r1) = (preamble @ ''DICM'') @ meta_header hs"
      by (simp add: init_reader_def BytesIO_def fseek_def)
    show "pos (rfile ?r1) = length (preamble @ ''DICM'')"
      using assms(1) by simp
  qed
  then have "read_header B ?r1 = Inl RuntimeError_EndOfHeader"
    by (simp add: read_header_def)
  then have "dicom_read B ?r0 = Inl RuntimeError_EndOfHeader"
    using rd by (simp add: dicom_read_def Let_def)
  moreover have "''PixelData'' \<notin> dom (rinfo d) \<longrightarrow>
              get_numpy_array to_array d = Inl TypeError_NoPixelData"
    by (simp add: get_numpy_array_def)
  ultimately show ?thesis by simp
qed


theorem meta_header_only_fails_witness:
  "length (replicate 128 (CHR 0x00)) = 128
   \<and> list_all wf_meta_element example_meta_header
   \<and> dicom_read B_example
        (init_reader ''<unknown file>''
           (BytesIO (replicate 128 (CHR 0x00) @ ''DICM'' @ meta_header example_meta_header)) None)
        = Inl RuntimeError_EndOfHeader
   \<and> ''PixelData'' \<notin> dom (rinfo (reader_of_file (BytesIO [])))
   \<and> get_numpy_array (\<lambda>r. Inl TypeError) (reader_of_file (BytesIO []))
        = Inl TypeError_NoPixelData"
proof -
  have l: "length (replicate 128 (CHR 0x00)) = 128" by simp
  have w: "list_all wf_meta_element example_meta_header"
    by (simp add: example_meta_header_def wf_meta_element_def long_vr_def byte_val_def)
  have p: "''PixelData'' \<notin> dom (rinfo (reader_of_file (BytesIO [])))"
    by (simp add: reader_of_file_def init_reader_def)
  from meta_header_only_fails [OF l w, of B_example "''<unknown file>''" None
      "reader_of_file (BytesIO [])" "\<lambda>r. Inl TypeError"] l w p
  show ?thesis by simp
qed

section \<open>The volume-boundary split\<close>

lemma split_loop_append:
  "fst (split_loop B st (xs @ ys)) =
     (case fst (split_loop B st xs) of
        Inl e \<Rightarrow> Inl e
      | Inr st' \<Rightarrow> fst (split_loop B st' ys))"
proof (induction xs arbitrary: st)
  case Nil
  show ?case by simp
next
  case (Cons x xs)
  show ?case
  proof (cases "split_step B st x")
    case (Pair res w)
    then show ?thesis
      by (cases res) (simp_all add: Cons.IH Let_def)
  qed
qed

text \<open>One step: the decision does not depend on the buckets, which only record it.\<close>

lemma split_step_cases:
  assumes "fst (split_step B (ds1, d, L2) ds2) = Inr st'"
  obtains (new) "st' = (ds2, 0, L2 @ [[ds2]])"
      and "\<And>M. fst (split_step B (ds1, d, M) ds2) = Inr (ds2, 0, M @ [[ds2]])"
    | (same) d' where "st' = (ds2, d', butlast L2 @ [last L2 @ [ds2]])"
      and "\<And>M. fst (split_step B (ds1, d, M) ds2) = Inr (ds2, d', butlast M @ [last M @ [ds2]])"
proof -
  from assms obtain pos1 pos2 where z: "z_pos B ds1 = Inr pos1" "z_pos B ds2 = Inr pos2"
    by (auto simp: split_step_def split: sum.splits)
  show thesis
  proof (cases "d \<noteq> 0 \<and> \<bar>pos1 - pos2\<bar> > 2.1 * d")
    case True
    with z assms have "st' = (ds2, 0, L2 @ [[ds2]])"
      by (simp add: split_step_def Let_def)
    moreover from True z have "\<And>M. fst (split_step B (ds1, d, M) ds2) = Inr (ds2, 0, M @ [[ds2]])"
      by (simp add: split_step_def Let_def)
    ultimately show thesis by (rule new)
  next
    case False
    with z assms have "st' = (ds2, \<bar>pos1 - pos2\<bar>, butlast L2 @ [last L2 @ [ds2]])"
      by (auto simp: split_step_def Let_def)
    moreover from False z
    have "\<And>M. fst (split_step B (ds1, d, M) ds2)
            = Inr (ds2, \<bar>pos1 - pos2\<bar>, butlast M @ [last M @ [ds2]])"
      by (auto simp: split_step_def Let_def)
    ultimately show thesis by (rule same)
  qed
qed

text \<open>
  Claim C5, as stated, on three slices at the positions 0, 0 and 5: the gap before the
  third slice is 5, the distance tracked from the gap before it is 0, and 5 exceeds 2.1
  times 0; the claim starts a new bucket there. The source does not (its test is
  \<open>distance and newDist > 2.1*distance\<close>): the three slices stay in one bucket.
\<close>

theorem split_ignores_zero_distance:
  "map_sum id snd (fst (split_buckets B_example [slice_at 1 0, slice_at 2 0, slice_at 3 5]))
   = Inr [[slice_at 1 0, slice_at 2 0, slice_at 3 5]]
   \<and> \<bar>(0::rat) - 5\<bar> > 2.1 * \<bar>(0::rat) - 0\<bar>"
  by (simp add: split_buckets_def sort_entries_def py_sort_by_key_def key_val_def
      slice_at_simps split_step_def Let_def)

lemma example_split:
  "fst (split_buckets B example_entries)
   = Inr ([slice_at 1 0, slice_at 2 1, slice_at 3 2, slice_at 4 10, slice_at 5 11, slice_at 6 12],
          [[slice_at 1 0, slice_at 2 1, slice_at 3 2], [slice_at 4 10, slice_at 5 11, slice_at 6 12]])"
  by (simp add: example_entries_def split_buckets_def sort_entries_def py_sort_by_key_def
      key_val_def slice_at_simps split_step_def Let_def)

text \<open>
  Claim C5, amended. In one step of the walk, with the previous slice at \<open>pos1\<close> and the
  current slice at \<open>pos2\<close>, a new bucket holding the current slice is started exactly when
  the distance is not zero and the new gap exceeds 2.1 times the distance, and the
  distance is then reset to 0; otherwise the slice joins the last bucket and the distance
  becomes the new gap. The series with the positions 0, 1, 2, 10, 11, 12 splits into the
  two buckets 0, 1, 2 and 10, 11, 12.
\<close>

theorem split_step_new_bucket:
  "(z_pos B ds1 = Inr pos1 \<and> z_pos B ds2 = Inr pos2 \<longrightarrow>
      fst (split_step B (ds1, distance, L2) ds2) =
        (if distance \<noteq> 0 \<and> \<bar>pos1 - pos2\<bar> > 2.1 * distance
         then Inr (ds2, 0, L2 @ [[ds2]])
         else Inr (ds2, \<bar>pos1 - pos2\<bar>, butlast L2 @ [last L2 @ [ds2]])))
   \<and> map_sum id (\<lambda>r. map (map (z_pos B)) (snd r)) (fst (split_buckets B example_entries))
       = Inr [[Inr 0, Inr 1, Inr 2], [Inr 10, Inr 11, Inr 12]]"
  by (simp add: split_step_def Let_def example_split slice_at_simps)

theorem split_step_new_bucket_witness:
  "z_pos B_example (slice_at 3 2) = Inr 2 \<and> z_pos B_example (slice_at 4 10) = Inr 10
   \<and> fst (split_step B_example (slice_at 3 2, 1, [[slice_at 1 0, slice_at 2 1, slice_at 3 2]])
        (slice_at 4 10))
      = Inr (slice_at 4 10, 0, [[slice_at 1 0, slice_at 2 1, slice_at 3 2], [slice_at 4 10]])"
  using split_step_new_bucket [of B_example "slice_at 3 2" 2 "slice_at 4 10" 10 1
      "[[slice_at 1 0, slice_at 2 1, slice_at 3 2]]"]
  by (simp add: slice_at_simps)

section \<open>Splitting twice\<close>

lemma first_error_None: "first_error xs = None \<longleftrightarrow> (\<forall>x\<in>set xs. \<exists>v. x = Inr v)"
  by (induction xs rule: first_error.induct) auto

lemma first_error_subset:
  assumes "first_error (map key xs) = None" and "set ys \<subseteq> set xs"
  shows "first_error (map key ys) = None"
  using assms unfolding first_error_None by auto

lemma sort_key_part:
  assumes "sort_key f xs = p @ b @ q"
  shows "sort_key f b = b"
proof -
  have "sorted (map f (sort_key f xs))" by (rule sorted_sort_key)
  with assms have "sorted (map f b)" by (simp add: sorted_append)
  then show ?thesis by (rule sort_key_id_if_sorted)
qed

lemma kinds_disjoint:
  "is_string v \<Longrightarrow> \<not> is_number v"
  "is_bytes v \<Longrightarrow> \<not> is_number v"
  "is_bytes v \<Longrightarrow> \<not> is_string v"
  "is_number_tuple v \<Longrightarrow> \<not> is_number v"
  "is_number_tuple v \<Longrightarrow> \<not> is_string v"
  "is_number_tuple v \<Longrightarrow> \<not> is_bytes v"
  by (cases v; simp)+

lemma list_all_part: "list_all P (p @ b @ q) \<Longrightarrow> list_all P b"
  by simp

lemma not_list_all_other:
  assumes "list_all P b" and "b \<noteq> []" and "\<And>x. P x \<Longrightarrow> \<not> Q x"
  shows "\<not> list_all Q b"
  using assms by (cases b) auto

lemma py_sort_by_key_part:
  assumes s: "py_sort_by_key key xs = Inr S" and part: "S = p @ b @ q"
  shows "py_sort_by_key key b = Inr b"
proof -
  from s have fe: "first_error (map key xs) = None"
    by (auto simp: py_sort_by_key_def split: option.splits)
  let ?P1 = "\<lambda>x. is_number (key_val key x)"
  let ?P2 = "\<lambda>x. is_string (key_val key x)"
  let ?P3 = "\<lambda>x. is_bytes (key_val key x)"
  let ?P4 = "\<lambda>x. is_number_tuple (key_val key x)"
  let ?f1 = "\<lambda>x. number_val (key_val key x)"
  let ?f2 = "\<lambda>x. chars_val (key_val key x)"
  let ?f4 = "\<lambda>x. numbers_val (key_val key x)"
  have setS: "set S = set xs"
    using s fe by (auto simp: py_sort_by_key_def split: if_splits)
  have lenS: "length S = length xs"
    using s fe by (auto simp: py_sort_by_key_def split: if_splits)
  have "set b \<subseteq> set xs" using part setS by auto
  with fe have feb: "first_error (map key b) = None" by (rule first_error_subset)
  show ?thesis
  proof (cases "length b \<le> 1")
    case True
    with feb show ?thesis by (simp add: py_sort_by_key_def)
  next
    case False
    then have bne: "b \<noteq> []" by auto
    from False part lenS have long: "\<not> length xs \<le> 1" by simp
    from s fe long have S_eq:
      "(if list_all ?P1 xs then Inr (sort_key ?f1 xs)
        else if list_all ?P2 xs then Inr (sort_key ?f2 xs)
        else if list_all ?P3 xs then Inr (sort_key ?f2 xs)
        else if list_all ?P4 xs then Inr (sort_key ?f4 xs)
        else Inl TypeError) = Inr S"
      by (simp add: py_sort_by_key_def)
    have all_b: "list_all P b" if "list_all P xs" for P
      using that part setS by (auto simp: list_all_iff)
    show ?thesis
    proof (cases "list_all ?P1 xs")
      case True
      with S_eq have S: "S = sort_key ?f1 xs" by simp
      from True have 1: "list_all ?P1 b" by (rule all_b)
      from S part have "sort_key ?f1 b = b" by (metis sort_key_part)
      with 1 feb False show ?thesis by (simp add: py_sort_by_key_def)
    next
      case not1: False
      show ?thesis
      proof (cases "list_all ?P2 xs")
        case True
        with S_eq not1 have S: "S = sort_key ?f2 xs" by simp
        from True have 2: "list_all ?P2 b" by (rule all_b)
        have n1: "\<not> list_all ?P1 b"
          by (rule not_list_all_other [OF 2 bne]) (rule kinds_disjoint)
        from S part have "sort_key ?f2 b = b" by (metis sort_key_part)
        with 2 n1 feb False show ?thesis by (simp add: py_sort_by_key_def)
      next
        case not2: False
        show ?thesis
        proof (cases "list_all ?P3 xs")
          case True
          with S_eq not1 not2 have S: "S = sort_key ?f2 xs" by simp
          from True have 3: "list_all ?P3 b" by (rule all_b)
          have n1: "\<not> list_all ?P1 b"
            by (rule not_list_all_other [OF 3 bne]) (rule kinds_disjoint)
          have n2: "\<not> list_all ?P2 b"
            by (rule not_list_all_other [OF 3 bne]) (rule kinds_disjoint)
          from S part have "sort_key ?f2 b = b" by (metis sort_key_part)
          with 3 n1 n2 feb False show ?thesis by (simp add: py_sort_by_key_def)
        next
          case not3: False
          show ?thesis
          proof (cases "list_all ?P4 xs")
            case True
            with S_eq not1 not2 not3 have S: "S = sort_key ?f4 xs" by simp
            from True have 4: "list_all ?P4 b" by (rule all_b)
            have n1: "\<not> list_all ?P1 b"
              by (rule not_list_all_other [OF 4 bne]) (rule kinds_disjoint)
            have n2: "\<not> list_all ?P2 b"
              by (rule not_list_all_other [OF 4 bne]) (rule kinds_disjoint)
            have n3: "\<not> list_all ?P3 b"
              by (rule not_list_all_other [OF 4 bne]) (rule kinds_disjoint)
            from S part have "sort_key ?f4 b = b" by (metis sort_key_part)
            with 4 n1 n2 n3 feb False show ?thesis by (simp add: py_sort_by_key_def)
          next
            case False
            with S_eq not1 not2 not3 show ?thesis by simp
          qed
        qed
      qed
    qed
  qed
qed


text \<open>A bucket is stable when the loop, started afresh on it, keeps it in one piece.\<close>

definition stable :: "builtins \<Rightarrow> reader list \<Rightarrow> bool" where
  "stable B b =
     (b \<noteq> [] \<and> (\<exists>ds d. fst (split_loop B (hd b, 0, [[hd b]]) (tl b)) = Inr (ds, d, [b])))"

definition split_inv :: "builtins \<Rightarrow> split_state \<Rightarrow> bool" where
  "split_inv B st =
     (case st of (ds1, d, L2) \<Rightarrow>
        L2 \<noteq> [] \<and> list_all (stable B) (butlast L2) \<and> last L2 \<noteq> []
        \<and> fst (split_loop B (hd (last L2), 0, [[hd (last L2)]]) (tl (last L2)))
            = Inr (ds1, d, [last L2]))"

lemma split_inv_step:
  assumes inv: "split_inv B st" and step: "fst (split_step B st ds2) = Inr st'"
  shows "split_inv B st'"
proof -
  obtain ds1 d L2 where st: "st = (ds1, d, L2)" by (cases st)
  let ?cur = "last L2"
  from inv st have ne: "L2 \<noteq> []" and old: "list_all (stable B) (butlast L2)"
    and cur: "?cur \<noteq> []"
    and run: "fst (split_loop B (hd ?cur, 0, [[hd ?cur]]) (tl ?cur)) = Inr (ds1, d, [?cur])"
    by (simp_all add: split_inv_def)
  from step st have "fst (split_step B (ds1, d, L2) ds2) = Inr st'" by simp
  then show ?thesis
  proof (cases rule: split_step_cases)
    case new
    from cur run have "stable B ?cur" unfolding stable_def by blast
    moreover from ne have "L2 = butlast L2 @ [last L2]" by simp
    ultimately have "list_all (stable B) L2"
      using old by (metis list_all_append list.pred_inject(1,2))
    with new(1) show ?thesis by (simp add: split_inv_def)
  next
    case (same d')
    have "fst (split_loop B (hd ?cur, 0, [[hd ?cur]]) (tl ?cur @ [ds2]))
          = fst (split_loop B (ds1, d, [?cur]) [ds2])"
      by (simp add: split_loop_append run del: split_loop.simps)
    also have "\<dots> = fst (split_step B (ds1, d, [?cur]) ds2)"
      by (cases "split_step B (ds1, d, [?cur]) ds2") (auto split: sum.splits)
    also have "\<dots> = Inr (ds2, d', [?cur @ [ds2]])"
      using same(2) [of "[?cur]"] by simp
    finally have "fst (split_loop B (hd ?cur, 0, [[hd ?cur]]) (tl ?cur @ [ds2]))
          = Inr (ds2, d', [?cur @ [ds2]])" .
    with same(1) old cur show ?thesis by (simp add: split_inv_def)
  qed
qed

lemma split_inv_loop:
  assumes "split_inv B st" and "fst (split_loop B st xs) = Inr st'"
  shows "split_inv B st'"
  using assms
proof (induction xs arbitrary: st)
  case Nil
  then show ?case by simp
next
  case (Cons x xs)
  obtain res w where sp: "split_step B st x = (res, w)" by (cases "split_step B st x")
  with Cons.prems(2) obtain st1 where res: "res = Inr st1"
    by (cases res) simp_all
  from sp res have "fst (split_step B st x) = Inr st1" by simp
  with Cons.prems(1) have "split_inv B st1" by (rule split_inv_step)
  moreover from Cons.prems(2) sp res have "fst (split_loop B st1 xs) = Inr st'"
    by (simp add: Let_def)
  ultimately show ?case by (rule Cons.IH)
qed

lemma split_inv_stable:
  assumes "split_inv B (ds, d, L2)"
  shows "list_all (stable B) L2"
proof -
  from assms have ne: "L2 \<noteq> []" and old: "list_all (stable B) (butlast L2)"
    and "stable B (last L2)"
    unfolding split_inv_def stable_def by auto
  moreover from ne have "L2 = butlast L2 @ [last L2]" by simp
  ultimately show ?thesis
    by (metis list_all_append list.pred_inject(1,2))
qed

lemma split_loop_concat:
  assumes "L2 \<noteq> []" and "fst (split_loop B (ds1, d, L2) xs) = Inr (ds', d', L2')"
  shows "concat L2' = concat L2 @ xs"
  using assms
proof (induction xs arbitrary: ds1 d L2)
  case Nil
  then show ?case by simp
next
  case (Cons x xs)
  obtain res w where sp: "split_step B (ds1, d, L2) x = (res, w)"
    by (cases "split_step B (ds1, d, L2) x")
  with Cons.prems(2) obtain st1 where res: "res = Inr st1"
    by (cases res) simp_all
  from Cons.prems(2) sp res have rest: "fst (split_loop B st1 xs) = Inr (ds', d', L2')"
    by (simp add: Let_def)
  from sp res have "fst (split_step B (ds1, d, L2) x) = Inr st1" by simp
  then show ?case
  proof (cases rule: split_step_cases)
    case new
    with rest Cons.IH [of "L2 @ [[x]]" x 0] have "concat L2' = concat (L2 @ [[x]]) @ xs"
      by simp
    then show ?thesis by simp
  next
    case (same d1)
    let ?M = "butlast L2 @ [last L2 @ [x]]"
    from same(1) rest Cons.IH [of ?M x d1] have "concat L2' = concat ?M @ xs" by simp
    moreover have "concat ?M = concat L2 @ [x]"
      using Cons.prems(1)
      by (metis (no_types, lifting) append_butlast_last_id concat.simps(1,2) concat_append append_assoc append_Nil2)
    ultimately show ?thesis by simp
  qed
qed

lemma in_concat_part:
  assumes "b \<in> set L2"
  shows "\<exists>p q. concat L2 = p @ b @ q"
proof -
  from assms obtain A C where "L2 = A @ b # C" by (auto simp: in_set_conv_decomp)
  then have "concat L2 = concat A @ b @ concat C" by simp
  then show ?thesis by blast
qed

text \<open>
  Claim C9. When the split of a series succeeds, the split of each of its buckets
  succeeds too, and gives back that bucket alone, its slices in the same order.
\<close>

theorem split_idempotent:
  assumes "fst (split_buckets B es) = Inr (L, L2)"
  shows "\<forall>b \<in> set L2. fst (split_buckets B b) = Inr (b, [b])"
proof
  fix b assume b: "b \<in> set L2"
  from assms obtain L' ds1 rest where "sort_entries es = Inr L'" and "L' = ds1 # rest"
    by (auto simp: split_buckets_def split: sum.splits list.splits)
  moreover from this assms have "L = L'"
    by (cases "split_loop B (ds1, 0, [[ds1]]) rest")
       (auto simp: split_buckets_def split: sum.splits if_splits)
  ultimately have sorted: "sort_entries es = Inr L" and L: "L = ds1 # rest" by simp_all
  have part: "\<exists>p q. L = p @ b @ q \<and> b \<noteq> []
                \<and> (''ImagePositionPatient'' \<in> dom (rinfo (hd b)) \<longrightarrow> stable B b)"
  proof (cases "''ImagePositionPatient'' \<in> dom (rinfo ds1)")
    case False
    with assms sorted L have "L2 = [L]" by (simp add: split_buckets_def)
    with b have "b = L" by simp
    with L False show ?thesis by (intro exI [of _ "[]"]) simp
  next
    case True
    with assms sorted L obtain ds d where
      run: "fst (split_loop B (ds1, 0, [[ds1]]) rest) = Inr (ds, d, L2)"
      by (cases "split_loop B (ds1, 0, [[ds1]]) rest")
         (auto simp: split_buckets_def split: sum.splits)
    have "split_inv B (ds1, 0, [[ds1]])" by (simp add: split_inv_def)
    from split_inv_loop [OF this run] have "list_all (stable B) L2"
      by (rule split_inv_stable)
    with b have st: "stable B b" by (simp add: list_all_iff)
    from split_loop_concat [OF _ run] have "concat L2 = L" by (simp add: L)
    with in_concat_part [OF b] obtain p q where "L = p @ b @ q" by auto
    with st show ?thesis unfolding stable_def by blast
  qed
  then obtain p q where pq: "L = p @ b @ q" and bne: "b \<noteq> []"
    and st: "''ImagePositionPatient'' \<in> dom (rinfo (hd b)) \<longrightarrow> stable B b" by blast
  from sorted pq have sb: "sort_entries b = Inr b"
    unfolding sort_entries_def by (rule py_sort_by_key_part)
  from bne obtain x xs where bx: "b = x # xs" by (cases b) auto
  show "fst (split_buckets B b) = Inr (b, [b])"
  proof (cases "''ImagePositionPatient'' \<in> dom (rinfo x)")
    case False
    with sb bx show ?thesis by (simp add: split_buckets_def)
  next
    case True
    with st bx obtain ds d where "fst (split_loop B (x, 0, [[x]]) xs) = Inr (ds, d, [b])"
      unfolding stable_def by auto
    with sb bx True show ?thesis
      by (cases "split_loop B (x, 0, [[x]]) xs") (auto simp: split_buckets_def)
  qed
qed


theorem split_idempotent_witness:
  "fst (split_buckets B_example example_entries)
   = Inr ([slice_at 1 0, slice_at 2 1, slice_at 3 2, slice_at 4 10, slice_at 5 11, slice_at 6 12],
          [[slice_at 1 0, slice_at 2 1, slice_at 3 2], [slice_at 4 10, slice_at 5 11, slice_at 6 12]])
   \<and> fst (split_buckets B_example [slice_at 1 0, slice_at 2 1, slice_at 3 2])
       = Inr ([slice_at 1 0, slice_at 2 1, slice_at 3 2], [[slice_at 1 0, slice_at 2 1, slice_at 3 2]])
   \<and> fst (split_buckets B_example [slice_at 4 10, slice_at 5 11, slice_at 6 12])
       = Inr ([slice_at 4 10, slice_at 5 11, slice_at 6 12],
              [[slice_at 4 10, slice_at 5 11, slice_at 6 12]])"
  using split_idempotent [OF example_split [of B_example]] example_split [of B_example]
  by simp

section \<open>Finishing a series\<close>

text \<open>The absolute differences of consecutive positions.\<close>

fun gaps :: "rat list \<Rightarrow> rat list" where
  "gaps (a # b # zs) = \<bar>a - b\<bar> # gaps (b # zs)"
| "gaps zs = []"

lemma finish_loop_result:
  assumes "fst (finish_loop B dims samp ds1 acc xs) = Inr (s, ds')"
  shows "ds' = last (ds1 # xs)
         \<and> (if xs = [] then s = acc
            else \<exists>zs. map (z_pos B) (ds1 # xs) = map Inr zs \<and> s = acc + sum_list (gaps zs))"
  using assms
proof (induction xs arbitrary: ds1 acc)
  case Nil
  then show ?case by simp
next
  case (Cons x xs)
  from Cons.prems obtain pos1 pos2 dims2 samp2 where
    z1: "z_pos B ds1 = Inr pos1" and z2: "z_pos B x = Inr pos2" and
    rest: "fst (finish_loop B dims samp x (acc + \<bar>pos1 - pos2\<bar>) xs) = Inr (s, ds')"
    by (auto simp: Let_def split: sum.splits if_splits)
  note ih = Cons.IH [OF rest]
  from ih have l: "ds' = last (x # xs)" by (rule conjunct1)
  from ih have r: "if xs = [] then s = acc + \<bar>pos1 - pos2\<bar>
            else \<exists>zs. map (z_pos B) (x # xs) = map Inr zs
                   \<and> s = acc + \<bar>pos1 - pos2\<bar> + sum_list (gaps zs)"
    by (rule conjunct2)
  have "\<exists>zs. map (z_pos B) (ds1 # x # xs) = map Inr zs \<and> s = acc + sum_list (gaps zs)"
  proof (cases "xs = []")
    case True
    with r z1 z2 show ?thesis by (intro exI [of _ "[pos1, pos2]"]) simp
  next
    case False
    with r have "\<exists>zs. map (z_pos B) (x # xs) = map Inr zs
                   \<and> s = acc + \<bar>pos1 - pos2\<bar> + sum_list (gaps zs)"
      by (simp only: if_False)
    then obtain zs where m: "map (z_pos B) (x # xs) = map Inr zs"
      and s: "s = acc + \<bar>pos1 - pos2\<bar> + sum_list (gaps zs)" by blast
    from m z2 obtain zs' where zs: "zs = pos2 # zs'" by (cases zs) auto
    have "map (z_pos B) (ds1 # x # xs) = map Inr (pos1 # zs)" using z1 m by simp
    moreover have "s = acc + sum_list (gaps (pos1 # zs))" using s zs by simp
    ultimately show ?thesis by blast
  qed
  with l show ?case by simp
qed

lemma finish_loop_events:
  "set (snd (finish_loop B dims samp ds1 acc xs)) \<subseteq> {Write ''Warning: sampling does not match.''}"
proof (induction xs arbitrary: ds1 acc)
  case Nil
  show ?case by simp
next
  case (Cons x xs)
  show ?case
    using Cons.IH by (auto simp: Let_def split: sum.splits if_splits)
qed

lemma finish_events:
  "set (snd (finish B s)) \<subseteq> {Write ''Warning: sampling does not match.''}"
proof -
  have "snd (finish B s) = []
        \<or> (\<exists>dims samp ds1 acc xs. snd (finish B s) = snd (finish_loop B dims samp ds1 acc xs))"
    unfolding finish_def Let_def
    by (auto split: sum.splits prod.splits if_splits) (metis snd_conv)+
  then show ?thesis
  proof
    assume "snd (finish B s) = []"
    then show ?thesis by simp
  next
    assume "\<exists>dims samp ds1 acc xs. snd (finish B s) = snd (finish_loop B dims samp ds1 acc xs)"
    then obtain dims samp ds1 acc xs where
      e: "snd (finish B s) = snd (finish_loop B dims samp ds1 acc xs)" by blast
    show ?thesis unfolding e by (rule finish_loop_events)
  qed
qed

text \<open>
  Claim C4, as stated, on a series of two slices with the same dimensions and the pixel
  spacings 0.5 and 1.0: the claim takes the sampling of the first slice, (3, 0.5, 0.5).
  The source warns that the sampling does not match, keeps the series, and takes the
  sampling of the slice the loop saw last: (3, 1, 1).
\<close>

theorem finish_takes_last_sampling:
  "map_sum id (\<lambda>s. sinfo s ''sampling'') (fst (finish B_example mixed_serie))
     = Inr (Some (VTuple [VFloat 3, VFloat 1, VFloat 1]))
   \<and> rinfo (entries mixed_serie ! 0) ''sampling'' = Some (VTuple [VFloat (1 / 2), VFloat (1 / 2)])
   \<and> snd (finish B_example mixed_serie) = [Write ''Warning: sampling does not match.'']"
  by (simp add: mixed_serie_def serie_of_def new_series_def finish_def slice_of_simps Let_def
      tuple_cons.simps, simp add: slice_of_def)

text \<open>
  Claim C4, amended. For every series of \<open>N \<ge> 2\<close> slices whose finalize succeeds, the
  finalized info is the info of the first slice with \<open>shape\<close> overwritten by \<open>N\<close> followed
  by the shape of the last slice, and \<open>sampling\<close> overwritten by the mean distance
  followed by the sampling of the last slice; the mean distance is the sum of the
  absolute differences of the positions of consecutive slices, divided by \<open>N - 1\<close>.
\<close>

theorem finish_info:
  assumes "fst (finish B serie) = Inr serie'" and "2 \<le> length (entries serie)"
  shows "\<exists>zs sh sa.
           map (z_pos B) (entries serie) = map Inr zs
         \<and> rinfo (last (entries serie)) ''shape'' = Some (VTuple sh)
         \<and> rinfo (last (entries serie)) ''sampling'' = Some (VTuple sa)
         \<and> sinfo serie' = (rinfo (hd (entries serie)))
              (''shape'' \<mapsto> VTuple (VInt (int (length (entries serie))) # sh),
               ''sampling'' \<mapsto> VTuple (VFloat (sum_list (gaps zs)
                                  / of_nat (length (entries serie) - 1)) # sa))
         \<and> entries serie' = entries serie \<and> suid serie' = suid serie"
proof -
  let ?L = "entries serie"
  from assms(2) obtain x y ys where L: "?L = x # y # ys"
    by (cases ?L; cases "tl ?L") auto
  from assms(1) L obtain dims samp s ds2 evs shape sampling' where
    lp: "finish_loop B dims samp x 0 ?L = (Inr (s, ds2), evs)" and
    sh: "bindE (getitem (rinfo ds2) ''shape'') (tuple_cons (VInt (int (length ?L)))) = Inr shape" and
    sa: "bindE (getitem (rinfo ds2) ''sampling'')
           (tuple_cons (VFloat (s / of_nat (length ?L - 1)))) = Inr sampling'" and
    res: "serie' = serie\<lparr>sinfo := (rinfo x)(''shape'' \<mapsto> shape, ''sampling'' \<mapsto> sampling')\<rparr>"
    unfolding finish_def Let_def
    by (auto split: sum.splits prod.splits dest!: bindE_Inr)
  from lp have "fst (finish_loop B dims samp x 0 ?L) = Inr (s, ds2)" by simp
  note fl = finish_loop_result [OF this]
  from fl have "ds2 = last (x # ?L)" by (rule conjunct1)
  with L have ds2: "ds2 = last ?L" by simp
  from fl have "if ?L = [] then s = 0
      else \<exists>zs. map (z_pos B) (x # ?L) = map Inr zs \<and> s = 0 + sum_list (gaps zs)"
    by (rule conjunct2)
  moreover from L have "?L \<noteq> []" by simp
  ultimately have "\<exists>zs. map (z_pos B) (x # ?L) = map Inr zs \<and> s = 0 + sum_list (gaps zs)"
    by (simp only: if_False)
  then obtain zs0 where m0: "map (z_pos B) (x # ?L) = map Inr zs0"
    and s0: "s = 0 + sum_list (gaps zs0)"
    by blast
  from s0 have s: "s = sum_list (gaps zs0)" by simp
  from m0 obtain z0 zs where zs0: "zs0 = z0 # zs" and m: "map (z_pos B) ?L = map Inr zs"
    by (cases zs0) auto
  from m L obtain zs' where "zs = z0 # zs'" using m0 zs0 by (cases zs) auto
  with s zs0 have s': "s = sum_list (gaps zs)" by simp
  from sh obtain sh0 where g1: "rinfo ds2 ''shape'' = Some (VTuple sh0)"
    and shape: "shape = VTuple (VInt (int (length ?L)) # sh0)"
    by (auto simp: getitem_def dest!: bindE_Inr split: option.splits elim!: tuple_cons.elims)
  from sa obtain sa0 where g2: "rinfo ds2 ''sampling'' = Some (VTuple sa0)"
    and samp: "sampling' = VTuple (VFloat (s / of_nat (length ?L - 1)) # sa0)"
    by (auto simp: getitem_def dest!: bindE_Inr split: option.splits elim!: tuple_cons.elims)
  from L have "hd ?L = x" by simp
  with m g1 g2 shape samp res ds2 s' show ?thesis by auto
qed


lemma uniform_finish:
  "fst (finish B_example uniform_serie)
   = Inr (uniform_serie\<lparr>sinfo := (rinfo (slice_at 1 0))
            (''shape'' \<mapsto> VTuple [VInt 2, VInt 2, VInt 3],
             ''sampling'' \<mapsto> VTuple [VFloat 3, VFloat (1 / 2), VFloat (1 / 2)])\<rparr>)"
  by (simp add: uniform_serie_def serie_of_def new_series_def finish_def slice_at_def
      slice_of_simps Let_def)

theorem finish_info_witness:
  "2 \<le> length (entries uniform_serie)
   \<and> fst (finish B_example uniform_serie)
      = Inr (uniform_serie\<lparr>sinfo := (rinfo (slice_at 1 0))
            (''shape'' \<mapsto> VTuple [VInt 2, VInt 2, VInt 3],
             ''sampling'' \<mapsto> VTuple [VFloat 3, VFloat (1 / 2), VFloat (1 / 2)])\<rparr>)
   \<and> (\<exists>zs sh sa.
           map (z_pos B_example) (entries uniform_serie) = map Inr zs
         \<and> rinfo (last (entries uniform_serie)) ''shape'' = Some (VTuple sh)
         \<and> rinfo (last (entries uniform_serie)) ''sampling'' = Some (VTuple sa)
         \<and> (rinfo (slice_at 1 0))
            (''shape'' \<mapsto> VTuple [VInt 2, VInt 2, VInt 3],
             ''sampling'' \<mapsto> VTuple [VFloat 3, VFloat (1 / 2), VFloat (1 / 2)])
           = (rinfo (hd (entries uniform_serie)))
              (''shape'' \<mapsto> VTuple (VInt (int (length (entries uniform_serie))) # sh),
               ''sampling'' \<mapsto> VTuple (VFloat (sum_list (gaps zs)
                                  / of_nat (length (entries uniform_serie) - 1)) # sa)))"
proof -
  have l: "2 \<le> length (entries uniform_serie)"
    by (simp add: uniform_serie_def serie_of_def)
  from finish_info [OF uniform_finish l] l uniform_finish show ?thesis
    by simp
qed


section \<open>Series that fail to finish\<close>

text \<open>What the finishing loop keeps of one serie.\<close>

definition keep_finished :: "builtins \<Rightarrow> DicomSeries \<Rightarrow> DicomSeries option" where
  "keep_finished B s = (case fst (finish B s) of Inl e \<Rightarrow> None | Inr s' \<Rightarrow> Some s')"

lemma finish_all_fst: "fst (finish_all B i ss) = List.map_filter (keep_finished B) ss"
  by (induction ss arbitrary: i)
     (simp_all add: map_filter_simps keep_finished_def Let_def split: sum.splits)

lemma finish_all_events:
  "set (snd (finish_all B i ss))
     \<subseteq> {Write ''Warning: sampling does not match.''} \<union> range SetProgress"
proof (induction ss arbitrary: i)
  case Nil
  show ?case by simp
next
  case (Cons s ss)
  from finish_events [of B s] Cons.IH [of "Suc i"] show ?case
    by (auto simp: Let_def)
qed

lemma bad_finish: "finish B bad_serie = (Inl ValueError_Dimensions, [])"
  by (simp add: bad_serie_def serie_of_def new_series_def finish_def slice_of_simps Let_def)

lemma good_finish: "finish B good_serie = (Inr (good_serie\<lparr>sinfo := rinfo (slice_at 1 0)\<rparr>), [])"
  by (simp add: good_serie_def serie_of_def new_series_def finish_def Let_def)

text \<open>
  Claim C8, as stated, on a list of two series, the first with slices of 2 and of 4
  rows: the claim logs the failure through the progress indicator. The source drops the
  series and writes nothing: the only calls on the progress indicator are the two
  \<open>set_progress\<close>, one per series, failed or not.
\<close>

theorem finish_all_no_log:
  "fst (finish B_example bad_serie) = Inl ValueError_Dimensions
   \<and> finish_all B_example 0 [bad_serie, good_serie]
     = ([good_serie\<lparr>sinfo := rinfo (slice_at 1 0)\<rparr>], [SetProgress 1, SetProgress 2])"
  by (simp add: bad_finish good_finish Let_def)

text \<open>
  Claim C8, amended. The finishing loop returns the series whose finalize succeeds, in
  order, and goes on after a series whose finalize raises (a dimension mismatch, or any
  other exception): that series is left out, and no call on the progress indicator
  reports it. The calls of the loop are \<open>set_progress\<close> after each series and the
  warnings "sampling does not match" of finalize.
\<close>

theorem finish_all_drops_silently:
  "fst (finish_all B i ss) = List.map_filter (keep_finished B) ss
   \<and> (\<forall>ev \<in> set (snd (finish_all B i ss)).
         ev = Write ''Warning: sampling does not match.'' \<or> (\<exists>n. ev = SetProgress n))
   \<and> (fst (finish B s) = Inl e \<longrightarrow>
         finish_all B i (s # ss)
         = (fst (finish_all B (Suc i) ss),
            snd (finish B s) @ [SetProgress (i + 1)] @ snd (finish_all B (Suc i) ss)))"
  using finish_all_events [of B i ss]
  by (auto simp: finish_all_fst Let_def)

theorem finish_all_drops_silently_witness:
  "fst (finish B_example bad_serie) = Inl ValueError_Dimensions
   \<and> finish_all B_example 0 (bad_serie # [good_serie])
      = (fst (finish_all B_example (Suc 0) [good_serie]),
         snd (finish B_example bad_serie) @ [SetProgress (0 + 1)]
         @ snd (finish_all B_example (Suc 0) [good_serie]))
   \<and> fst (finish_all B_example 0 [bad_serie, good_serie])
      = [good_serie\<lparr>sinfo := rinfo (slice_at 1 0)\<rparr>]
   \<and> snd (finish_all B_example 0 [bad_serie, good_serie]) = [SetProgress 1, SetProgress 2]"
  using finish_all_drops_silently [of B_example 0 "[good_serie]" bad_serie ValueError_Dimensions]
  by (simp add: bad_finish good_finish Let_def)

section \<open>The host reader with multiple images\<close>

text \<open>
  Claim C6. The claim returns slice \<open>i\<close> of the loaded volume for every index below the
  number of slices. The host reader of the example expects multiple images and holds a
  volume of two slices, so its length is 2. For index 1 the source does not look at the
  volume (its test is \<open>index==0 and nslices > 1\<close>): it returns the array of the second file
  of the series, 77 and 78, and not the second slice of the volume, 20 and 21. The
  branch for a single expected image indexes the volume at every index.
\<close>

theorem multi_image_second_slice:
  "map_sum id fst (get_length example_to_array example_host) = Inr 2
   \<and> map_sum id (\<lambda>r. fst (fst r)) (get_data example_to_array stack example_host 1)
      = Inr \<lparr>nd_dtype = np_uint8, nd_shape = [1, 2], nd_flat = [77, 78]\<rparr>
   \<and> nd_index example_volume 1
      = Inr \<lparr>nd_dtype = np_uint8, nd_shape = [1, 2], nd_flat = [20, 21]\<rparr>"
  by (simp add: get_length_def get_data_def ensure_data_def example_host_def example_volume_def
      nslices_of_def nd_index_def list_index_def serie_of_def new_series_def
      get_numpy_array_def load_pixel_data_def example_to_array_def pixel_slice_def
      slice_at_def slice_of_def reader_of_file_def init_reader_def Let_def byte_val_def)

text \<open>For any index but 0, and whatever the loaded array, the result comes from the series.\<close>

lemma get_data_multi_image_nonzero:
  assumes "expect rd = EXPECT_MIM" and "r_data rd = Some d" and "index \<noteq> 0"
  shows "get_data to_array stack rd index =
     bindE (r_series rd)
       (\<lambda>ss. bindE (list_index (concat (map entries ss)) index)
          (\<lambda>dcm. bindE (get_numpy_array to_array dcm)
             (\<lambda>(a, dcm'). Inr ((a, rinfo dcm'), rd))))"
  using assms by (simp add: get_data_def ensure_data_def Let_def)


end
